theory Spec2Isabelle
  imports Complex_Main "HOL-Library.Sublist"
begin

section \<open>Data model\<close>

text \<open>
  The module \<^verbatim>\<open>mesh2sdf/compute.py\<close> holds one function, \<^verbatim>\<open>compute\<close>, which
  sequences calls into numpy, scikit-image, trimesh and the extension module
  \<^verbatim>\<open>mesh2sdf.core\<close>. Floating-point numbers are modelled as \<^typ>\<open>real\<close>: rounding, NaN and
  infinities are outside the model. A numpy array of shape \<open>(n, 3)\<close> is a list of triples.
\<close>

type_synonym vec3 = "real \<times> real \<times> real"
type_synonym face = "nat \<times> nat \<times> nat"
type_synonym bbox = "vec3 \<times> vec3"

text \<open>A \<^verbatim>\<open>trimesh.Trimesh\<close> object, reduced to the two attributes the function reads and writes.\<close>

record mesh =
  vertices :: "vec3 list"
  faces :: "face list"

text \<open>A 3-D numpy array: its \<^verbatim>\<open>shape\<close> and its entries in storage order.\<close>

record scalar_field =
  shape :: "nat \<times> nat \<times> nat"
  entries :: "real list"

text \<open>A raised Python exception, identified by the name of its class.\<close>

datatype error = Raised string

text \<open>The two shapes of the return value: \<^verbatim>\<open>sdf\<close> alone, or the pair \<^verbatim>\<open>(sdf, mesh)\<close>.\<close>

datatype result = Sdf scalar_field | SdfMesh scalar_field mesh

fun field_of :: "result \<Rightarrow> scalar_field" where
  "field_of (Sdf sdf) = sdf"
| "field_of (SdfMesh sdf m) = sdf"

fun mesh_of :: "result \<Rightarrow> mesh option" where
  "mesh_of (Sdf sdf) = None"
| "mesh_of (SdfMesh sdf m) = Some m"

text \<open>
  The calls whose bodies are not part of the module are parameters of the model; each may
  raise:
  \<^item> \<open>core_compute\<close> is \<^verbatim>\<open>mesh2sdf.core.compute(vertices, faces, size)\<close>;
  \<^item> \<open>mc_polygonize\<close> is the polygonisation inside \<^verbatim>\<open>skimage.measure.marching_cubes\<close>
    (the argument checks around it are modelled in \<open>marching_cubes\<close> below);
  \<^item> \<open>as_float32\<close> is the conversion of one array entry to \<^verbatim>\<open>np.float32\<close>, which
    \<^verbatim>\<open>marching_cubes\<close> applies to its volume before it looks at the values;
  \<^item> \<open>compare_operand\<close> is the number that numpy compares with a \<^verbatim>\<open>np.float32\<close> value
    when the other operand is the Python float \<^verbatim>\<open>level\<close>: the float itself under
    value-based promotion, its rounding to \<^verbatim>\<open>np.float32\<close> under the newer promotion
    rules;
  \<^item> \<open>Trimesh\<close> is the constructor \<^verbatim>\<open>trimesh.Trimesh(vertices, faces)\<close>;
  \<^item> \<open>mesh_split\<close> is \<^verbatim>\<open>mesh.split(only_watertight=False)\<close>;
  \<^item> \<open>concatenate\<close> is \<^verbatim>\<open>trimesh.util.concatenate(components)\<close>.
\<close>

record prims =
  core_compute :: "vec3 list \<Rightarrow> face list \<Rightarrow> int \<Rightarrow> error + scalar_field"
  mc_polygonize :: "scalar_field \<Rightarrow> real \<Rightarrow> error + (vec3 list \<times> face list)"
  as_float32 :: "real \<Rightarrow> real"
  compare_operand :: "real \<Rightarrow> real"
  Trimesh :: "vec3 list \<Rightarrow> face list \<Rightarrow> error + mesh"
  mesh_split :: "mesh \<Rightarrow> error + mesh list"
  concatenate :: "mesh list \<Rightarrow> error + mesh"

section \<open>Array operations used by the function\<close>

text \<open>\<^verbatim>\<open>arr.min()\<close> and \<^verbatim>\<open>arr.max()\<close> of a non-empty array (numpy raises on an empty one;
  every caller below tests for emptiness first).\<close>

definition amin :: "real list \<Rightarrow> real" where
  "amin xs = fold min (tl xs) (hd xs)"

definition amax :: "real list \<Rightarrow> real" where
  "amax xs = fold max (tl xs) (hd xs)"

text \<open>\<^verbatim>\<open>arr.min(0)\<close> and \<^verbatim>\<open>arr.max(0)\<close> of a non-empty \<open>(n, 3)\<close> array: the minimum and
  maximum of each column.\<close>

definition vmin :: "vec3 list \<Rightarrow> vec3" where
  "vmin ps = (amin (map fst ps), amin (map (\<lambda>p. fst (snd p)) ps), amin (map (\<lambda>p. snd (snd p)) ps))"

definition vmax :: "vec3 list \<Rightarrow> vec3" where
  "vmax ps = (amax (map fst ps), amax (map (\<lambda>p. fst (snd p)) ps), amax (map (\<lambda>p. snd (snd p)) ps))"

text \<open>\<^verbatim>\<open>np.abs(sdf)\<close>: the element-wise absolute value.\<close>

definition np_abs :: "scalar_field \<Rightarrow> scalar_field" where
  "np_abs sdf = sdf\<lparr>entries := map abs (entries sdf)\<rparr>"

text \<open>\<^verbatim>\<open>np.ascontiguousarray(volume, np.float32)\<close>: every entry converted, the shape kept.\<close>

definition cast_float32 :: "prims \<Rightarrow> scalar_field \<Rightarrow> scalar_field" where
  "cast_float32 P volume = volume\<lparr>entries := map (as_float32 P) (entries volume)\<rparr>"

text \<open>
  \<^verbatim>\<open>skimage.measure.marching_cubes(volume, level)\<close>. The library raises \<^verbatim>\<open>ValueError\<close>
  when an axis is shorter than 2. It then converts the volume to \<^verbatim>\<open>np.float32\<close> and raises
  \<^verbatim>\<open>ValueError\<close> when \<^verbatim>\<open>level\<close> compares below \<^verbatim>\<open>volume.min()\<close> or above
  \<^verbatim>\<open>volume.max()\<close> of the converted volume (the reductions themselves raise
  \<^verbatim>\<open>ValueError\<close> on an empty array). It polygonises the converted volume at \<^verbatim>\<open>level\<close>
  and raises \<^verbatim>\<open>RuntimeError\<close> when no vertex was produced. The function uses the first two
  of the four returned arrays.
\<close>

definition marching_cubes :: "prims \<Rightarrow> scalar_field \<Rightarrow> real \<Rightarrow> error + (vec3 list \<times> face list)" where
  "marching_cubes P volume level =
     (case shape volume of (n0, n1, n2) \<Rightarrow>
        if n0 < 2 \<or> n1 < 2 \<or> n2 < 2 then Inl (Raised ''ValueError'')
        else (let volume = cast_float32 P volume in
              if entries volume = [] then Inl (Raised ''ValueError'')
              else if compare_operand P level < amin (entries volume) \<or>
                      compare_operand P level > amax (entries volume)
                then Inl (Raised ''ValueError'')
              else (case mc_polygonize P volume level of
                      Inl e \<Rightarrow> Inl e
                    | Inr (vs, fs) \<Rightarrow>
                        if vs = [] then Inl (Raised ''RuntimeError'') else Inr (vs, fs))))"

section \<open>Bounding boxes\<close>

definition face_indices :: "face list \<Rightarrow> nat list" where
  "face_indices fs = concat (map (\<lambda>(a, b, c). [a, b, c]) fs)"

text \<open>
  The property \<^verbatim>\<open>c.bounds\<close> of trimesh: the minimum and maximum corner of the vertices
  that some face refers to, \<^verbatim>\<open>None\<close> when there is no such vertex. Marking the referenced
  vertices indexes the vertex array by the faces, which raises \<^verbatim>\<open>IndexError\<close> on an
  index out of range.
\<close>

definition bounds :: "mesh \<Rightarrow> error + bbox option" where
  "bounds c =
     (if \<exists>i \<in> set (face_indices (faces c)). length (vertices c) \<le> i
      then Inl (Raised ''IndexError'')
      else (let in_mesh = map (\<lambda>i. vertices c ! i)
                            (filter (\<lambda>i. i \<in> set (face_indices (faces c))) [0..<length (vertices c)])
            in if in_mesh = [] then Inr None else Inr (Some (vmin in_mesh, vmax in_mesh))))"

text \<open>\<^verbatim>\<open>(p > q).all()\<close> and \<^verbatim>\<open>(p < q).all()\<close> on two rows of three numbers.\<close>

definition all_gt :: "vec3 \<Rightarrow> vec3 \<Rightarrow> bool" where
  "all_gt p q = (case p of (px, py, pz) \<Rightarrow> case q of (qx, qy, qz) \<Rightarrow> px > qx \<and> py > qy \<and> pz > qz)"

definition all_lt :: "vec3 \<Rightarrow> vec3 \<Rightarrow> bool" where
  "all_lt p q = (case p of (px, py, pz) \<Rightarrow> case q of (qx, qy, qz) \<Rightarrow> px < qx \<and> py < qy \<and> pz < qz)"

text \<open>
  \<^verbatim>\<open>trimesh.bounds.contains(bounds, points)\<close>, called with two \<^verbatim>\<open>bounds\<close> values: the
  second one is read as the two points \<open>[min corner, max corner]\<close>. The library computes
  \<^verbatim>\<open>logical_and((points > bounds[0]).all(axis=1), (points < bounds[1]).all(axis=1))\<close>,
  one flag per point. With \<^verbatim>\<open>None\<close> as first argument \<^verbatim>\<open>len(bounds)\<close> raises
  \<^verbatim>\<open>TypeError\<close>; with \<^verbatim>\<open>None\<close> as second argument the shape test raises \<^verbatim>\<open>ValueError\<close>.
\<close>

definition contains :: "bbox option \<Rightarrow> bbox option \<Rightarrow> error + bool list" where
  "contains bnds points =
     (case bnds of
        None \<Rightarrow> Inl (Raised ''TypeError'')
      | Some (lo, hi) \<Rightarrow>
          (case points of
             None \<Rightarrow> Inl (Raised ''ValueError'')
           | Some (pmin, pmax) \<Rightarrow>
               Inr [all_gt pmin lo \<and> all_lt pmin hi, all_gt pmax lo \<and> all_lt pmax hi]))"

section \<open>Shell selection\<close>

text \<open>
  The inner loop of lines 47 to 51, for the component at position \<open>i\<close> with bounds \<open>b\<close>.
  The components of one split are distinct objects, and \<^verbatim>\<open>c_other != c\<close> compares
  objects; the model compares positions in the list.
\<close>

fun inner_loop :: "nat \<Rightarrow> bbox option \<Rightarrow> (nat \<times> mesh) list \<Rightarrow> bool \<Rightarrow> error + bool" where
  "inner_loop i b [] keep_flag = Inr keep_flag"
| "inner_loop i b ((j, c_other) # rest) keep_flag =
     (if j \<noteq> i then
        (case bounds c_other of
           Inl e \<Rightarrow> Inl e
         | Inr ob \<Rightarrow>
             (case contains ob b of
                Inl e \<Rightarrow> Inl e
              | Inr inside_flag \<Rightarrow>
                  inner_loop i b rest (if list_all id inside_flag then False else keep_flag)))
      else inner_loop i b rest keep_flag)"

text \<open>The outer loop of lines 44 to 53 over the components still to visit.\<close>

fun outer_loop :: "(nat \<times> mesh) list \<Rightarrow> (nat \<times> mesh) list \<Rightarrow> bool list \<Rightarrow> error + bool list" where
  "outer_loop components [] keep_flags = Inr keep_flags"
| "outer_loop components ((i, c) # rest) keep_flags =
     (case bounds c of
        Inl e \<Rightarrow> Inl e
      | Inr b \<Rightarrow>
          (case inner_loop i b components True of
             Inl e \<Rightarrow> Inl e
           | Inr keep_flag \<Rightarrow> outer_loop components rest (keep_flags @ [keep_flag])))"

definition keep_flags_of :: "mesh list \<Rightarrow> error + bool list" where
  "keep_flags_of components =
     outer_loop (enumerate 0 components) (enumerate 0 components) []"

text \<open>Lines 41 to 58: the components whose flag is set, in their order.\<close>

definition kept_components :: "mesh list \<Rightarrow> error + mesh list" where
  "kept_components components =
     (case keep_flags_of components of
        Inl e \<Rightarrow> Inl e
      | Inr keep_flags \<Rightarrow> Inr (map fst (filter snd (zip components keep_flags))))"

text \<open>Lines 64 to 66: \<^verbatim>\<open>(c.vertices.max(0) - c.vertices.min(0)).max()\<close>, the longest side of
  the box around all vertices of \<open>c\<close>; the reductions raise on an empty vertex array.\<close>

definition longest_side :: "mesh \<Rightarrow> error + real" where
  "longest_side c =
     (if vertices c = [] then Inl (Raised ''ValueError'')
      else (case vmin (vertices c) of (x0, y0, z0) \<Rightarrow>
            case vmax (vertices c) of (x1, y1, z1) \<Rightarrow>
              Inr (amax [x1 - x0, y1 - y0, z1 - z0])))"

fun bbox_loop :: "mesh list \<Rightarrow> real list \<Rightarrow> error + real list" where
  "bbox_loop [] bbox = Inr bbox"
| "bbox_loop (c # rest) bbox =
     (case longest_side c of
        Inl e \<Rightarrow> Inl e
      | Inr s \<Rightarrow> bbox_loop rest (bbox @ [s]))"

text \<open>\<^verbatim>\<open>np.argmax\<close>: the first position of the maximum; \<^verbatim>\<open>ValueError\<close> on an empty
  sequence.\<close>

fun argmax_scan :: "real list \<Rightarrow> nat \<Rightarrow> nat \<Rightarrow> real \<Rightarrow> nat" where
  "argmax_scan [] i best best_val = best"
| "argmax_scan (x # xs) i best best_val =
     (if x > best_val then argmax_scan xs (Suc i) i x else argmax_scan xs (Suc i) best best_val)"

definition argmax :: "real list \<Rightarrow> error + nat" where
  "argmax xs = (case xs of [] \<Rightarrow> Inl (Raised ''ValueError'') | x # rest \<Rightarrow> Inr (argmax_scan rest 1 0 x))"

text \<open>Lines 62 to 67: the index of the component to pick.\<close>

definition max_component :: "mesh list \<Rightarrow> error + nat" where
  "max_component components =
     (case bbox_loop components [] of
        Inl e \<Rightarrow> Inl e
      | Inr bbox \<Rightarrow> argmax bbox)"

text \<open>Line 68: \<^verbatim>\<open>components[max_component]\<close>.\<close>

definition item :: "'a list \<Rightarrow> nat \<Rightarrow> error + 'a" where
  "item xs k = (if k < length xs then Inr (xs ! k) else Inl (Raised ''IndexError''))"

section \<open>Renormalisation\<close>

text \<open>
  Line 69: \<^verbatim>\<open>mesh.vertices = mesh.vertices * (2.0 / (size - 1)) - 1.0\<close>, with \<^verbatim>\<open>size\<close> a
  Python \<^verbatim>\<open>int\<close>: the division raises \<^verbatim>\<open>ZeroDivisionError\<close> when \<^verbatim>\<open>size\<close> is 1. The faces
  are left as they are.
\<close>

definition renorm_coord :: "int \<Rightarrow> real \<Rightarrow> real" where
  "renorm_coord sz x = x * (2 / real_of_int (sz - 1)) - 1"

definition renormalize :: "int \<Rightarrow> mesh \<Rightarrow> error + mesh" where
  "renormalize sz m =
     (if sz - 1 = 0 then Inl (Raised ''ZeroDivisionError'')
      else Inr (m\<lparr>vertices :=
                  map (\<lambda>(x, y, z). (renorm_coord sz x, renorm_coord sz y, renorm_coord sz z))
                      (vertices m)\<rparr>))"

section \<open>The function \<^verbatim>\<open>compute\<close>\<close>

text \<open>
  A run of the function yields its outcome and a log of the stages it started, in order:
  \<^item> \<open>FIELD1\<close>: line 27, the first call of \<^verbatim>\<open>mesh2sdf.core.compute\<close>;
  \<^item> \<open>ABS\<close>: line 33, \<^verbatim>\<open>np.abs\<close>;
  \<^item> \<open>ISO\<close>: lines 34 and 37, \<^verbatim>\<open>marching_cubes\<close> and the mesh built from its output;
  \<^item> \<open>SPLIT\<close>: line 39, \<^verbatim>\<open>mesh.split\<close>;
  \<^item> \<open>SELECTED\<close>: lines 41 to 58 (keep flags and filter) or 62 to 67 (index of the pick);
  \<^item> \<open>MERGED\<close>: line 60, \<^verbatim>\<open>concatenate\<close> of the kept components (containment policy);
  \<^item> \<open>PICKED\<close>: line 68, \<^verbatim>\<open>components[max_component]\<close> (single-pick policy), where
    nothing is merged;
  \<^item> \<open>RENORMALIZED\<close>: line 69;
  \<^item> \<open>FIELD2\<close>: line 72, the second call of \<^verbatim>\<open>mesh2sdf.core.compute\<close>.
  The \<^verbatim>\<open>print\<close> calls are not modelled.
\<close>

datatype stage = FIELD1 | ABS | ISO | SPLIT | SELECTED | MERGED | PICKED | RENORMALIZED | FIELD2

type_synonym 'a run = "stage list \<times> (error + 'a)"

definition enter :: "stage \<Rightarrow> error + 'a \<Rightarrow> 'a run" where
  "enter s r = ([s], r)"

definition no_stage :: "error + 'a \<Rightarrow> 'a run" where
  "no_stage r = ([], r)"

definition then_run :: "'a run \<Rightarrow> ('a \<Rightarrow> 'b run) \<Rightarrow> 'b run" where
  "then_run m k =
     (case m of
        (tr, Inl e) \<Rightarrow> (tr, Inl e)
      | (tr, Inr x) \<Rightarrow> (case k x of (tr', r) \<Rightarrow> (tr @ tr', r)))"

text \<open>Lines 40 to 68: the selected mesh, by either policy.\<close>

definition select_mesh :: "prims \<Rightarrow> bool \<Rightarrow> mesh list \<Rightarrow> mesh run" where
  "select_mesh P new_fix components =
     (if new_fix then
        then_run (enter SELECTED (kept_components components)) (\<lambda>kept.
        enter MERGED (concatenate P kept))
      else
        then_run (enter SELECTED (max_component components)) (\<lambda>k.
        enter PICKED (item components k)))"

text \<open>The function, with \<open>v\<close>, \<open>f\<close> and \<open>sz\<close> for its parameters \<^verbatim>\<open>vertices\<close>, \<^verbatim>\<open>faces\<close>
  and \<^verbatim>\<open>size\<close>.\<close>

definition compute ::
  "prims \<Rightarrow> vec3 list \<Rightarrow> face list \<Rightarrow> int \<Rightarrow> bool \<Rightarrow> real \<Rightarrow> bool \<Rightarrow> bool \<Rightarrow> result run" where
  "compute P v f sz fix level return_mesh new_fix =
     then_run (enter FIELD1 (core_compute P v f sz)) (\<lambda>sdf.
     if \<not> fix then
       (if return_mesh
        then then_run (no_stage (Trimesh P v f)) (\<lambda>m. no_stage (Inr (SdfMesh sdf m)))
        else no_stage (Inr (Sdf sdf)))
     else
       then_run (enter ABS (Inr (np_abs sdf))) (\<lambda>sdf.
       then_run (enter ISO (marching_cubes P sdf level)) (\<lambda>(vs, fs).
       then_run (no_stage (Trimesh P vs fs)) (\<lambda>mesh.
       then_run (enter SPLIT (mesh_split P mesh)) (\<lambda>components.
       then_run (select_mesh P new_fix components) (\<lambda>mesh.
       then_run (enter RENORMALIZED (renormalize sz mesh)) (\<lambda>mesh.
       then_run (enter FIELD2 (core_compute P (vertices mesh) (faces mesh) sz)) (\<lambda>sdf.
       no_stage (Inr (if return_mesh then SdfMesh sdf mesh else Sdf sdf))))))))))"

text \<open>The stages of a complete repair run under either policy, in the order of the
  statements.\<close>

definition repair_stages :: "bool \<Rightarrow> stage list" where
  "repair_stages new_fix =
     [FIELD1, ABS, ISO, SPLIT, SELECTED, if new_fix then MERGED else PICKED, RENORMALIZED, FIELD2]"

section \<open>The signature\<close>

text \<open>
  Lines 9 and 10:
  \<^verbatim>\<open>def compute(vertices, faces, size=128, fix=False, level=0.015, return_mesh=False, new_fix=True)\<close>.
  The parameters in order, each with its default if it has one.
\<close>

datatype pyval = PyInt int | PyBool bool | PyFloat real | PyVertices "vec3 list" | PyFaces "face list"

definition compute_params :: "(string \<times> pyval option) list" where
  "compute_params =
     [(''vertices'', None), (''faces'', None), (''size'', Some (PyInt 128)),
      (''fix'', Some (PyBool False)), (''level'', Some (PyFloat (15 / 1000))),
      (''return_mesh'', Some (PyBool False)), (''new_fix'', Some (PyBool True))]"

text \<open>
  How Python binds the arguments of a call to such a parameter list: positional arguments
  fill the parameters from the left; a keyword must name a parameter that has no value yet;
  a parameter left without a value takes its default. Any other call raises
  \<^verbatim>\<open>TypeError\<close>.
\<close>

fun bind_keywords ::
  "string list \<Rightarrow> (string \<times> pyval) list \<Rightarrow> (string \<rightharpoonup> pyval) \<Rightarrow> error + (string \<rightharpoonup> pyval)" where
  "bind_keywords names [] env = Inr env"
| "bind_keywords names ((k, x) # rest) env =
     (if k \<notin> set names then Inl (Raised ''TypeError'')
      else if env k \<noteq> None then Inl (Raised ''TypeError'')
      else bind_keywords names rest (env(k \<mapsto> x)))"

fun fill_defaults :: "(string \<times> pyval option) list \<Rightarrow> (string \<rightharpoonup> pyval) \<Rightarrow> error + pyval list" where
  "fill_defaults [] env = Inr []"
| "fill_defaults ((k, d) # rest) env =
     (case (case env k of Some x \<Rightarrow> Some x | None \<Rightarrow> d) of
        None \<Rightarrow> Inl (Raised ''TypeError'')
      | Some x \<Rightarrow> (case fill_defaults rest env of Inl e \<Rightarrow> Inl e | Inr xs \<Rightarrow> Inr (x # xs)))"

definition bind_args ::
  "(string \<times> pyval option) list \<Rightarrow> pyval list \<Rightarrow> (string \<times> pyval) list \<Rightarrow> error + pyval list" where
  "bind_args params args kwargs =
     (if length args > length params then Inl (Raised ''TypeError'')
      else (case bind_keywords (map fst params) kwargs (map_of (zip (map fst params) args)) of
              Inl e \<Rightarrow> Inl e
            | Inr env \<Rightarrow> fill_defaults params env))"

text \<open>
  A call \<^verbatim>\<open>compute(*args, **kwargs)\<close>. The body is run when the bound values have the
  annotated types; Python does not check the annotations, and calls with other values are
  outside the model (\<open>None\<close>).
\<close>

fun as_vertices :: "pyval \<Rightarrow> vec3 list option" where
  "as_vertices (PyVertices v) = Some v"
| "as_vertices x = None"

fun as_faces :: "pyval \<Rightarrow> face list option" where
  "as_faces (PyFaces f) = Some f"
| "as_faces x = None"

fun as_int :: "pyval \<Rightarrow> int option" where
  "as_int (PyInt i) = Some i"
| "as_int x = None"

fun as_bool :: "pyval \<Rightarrow> bool option" where
  "as_bool (PyBool b) = Some b"
| "as_bool x = None"

fun as_float :: "pyval \<Rightarrow> real option" where
  "as_float (PyFloat r) = Some r"
| "as_float x = None"

definition run_body :: "prims \<Rightarrow> pyval list \<Rightarrow> result run option" where
  "run_body P xs =
     (case xs of
        [a1, a2, a3, a4, a5, a6, a7] \<Rightarrow>
          (case (as_vertices a1, as_faces a2, as_int a3, as_bool a4, as_float a5, as_bool a6,
                 as_bool a7) of
             (Some v, Some f, Some sz, Some fix, Some level, Some return_mesh, Some new_fix) \<Rightarrow>
               Some (compute P v f sz fix level return_mesh new_fix)
           | _ \<Rightarrow> None)
      | _ \<Rightarrow> None)"

definition call_compute :: "prims \<Rightarrow> pyval list \<Rightarrow> (string \<times> pyval) list \<Rightarrow> error + result run option" where
  "call_compute P args kwargs =
     (case bind_args compute_params args kwargs of
        Inl e \<Rightarrow> Inl e
      | Inr xs \<Rightarrow> Inr (run_body P xs))"

section \<open>Notions of the specification\<close>

text \<open>
  Box \<open>a\<close> lies strictly inside box \<open>b\<close>: on each of the three axes the minimum of \<open>a\<close> is
  above the minimum of \<open>b\<close> and the maximum of \<open>a\<close> is below the maximum of \<open>b\<close>.
\<close>

definition strictly_inside :: "bbox \<Rightarrow> bbox \<Rightarrow> bool" where
  "strictly_inside a b = (all_gt (fst a) (fst b) \<and> all_lt (snd a) (snd b))"

text \<open>The bounding box of component \<open>c\<close> lies strictly inside that of component \<open>c'\<close>.\<close>

definition box_inside :: "mesh \<Rightarrow> mesh \<Rightarrow> bool" where
  "box_inside c c' =
     (case bounds c of
        Inr (Some a) \<Rightarrow> (case bounds c' of Inr (Some b) \<Rightarrow> strictly_inside a b | _ \<Rightarrow> False)
      | _ \<Rightarrow> False)"

text \<open>The squared length of the diagonal of the box around all vertices of \<open>c\<close> (for a
  component with at least one vertex).\<close>

definition diagonal_sq :: "mesh \<Rightarrow> real" where
  "diagonal_sq c =
     (case vmin (vertices c) of (x0, y0, z0) \<Rightarrow>
      case vmax (vertices c) of (x1, y1, z1) \<Rightarrow>
        (x1 - x0)\<^sup>2 + (y1 - y0)\<^sup>2 + (z1 - z0)\<^sup>2)"

text \<open>The test of lines 49 and 50 for one pair: does \<open>c_other\<close> switch off the flag of a
  component with bounds \<open>b\<close>?\<close>

definition discards :: "mesh \<Rightarrow> bbox option \<Rightarrow> bool" where
  "discards c_other b =
     (case bounds c_other of
        Inl e \<Rightarrow> False
      | Inr ob \<Rightarrow> (case contains ob b of Inl e \<Rightarrow> False | Inr inside_flag \<Rightarrow> list_all id inside_flag))"

definition bounds_or_none :: "mesh \<Rightarrow> bbox option" where
  "bounds_or_none c = (case bounds c of Inl e \<Rightarrow> None | Inr b \<Rightarrow> b)"

section \<open>Sample inputs\<close>

text \<open>
  Concrete stand-ins for the external calls, to run the function on concrete inputs: a
  field on a \<open>2 \<times> 2 \<times> 2\<close> grid whose second entry is the number of vertices of the mesh, a
  polygoniser that returns one triangle, conversions that change no number, a constructor
  that stores its arguments, a splitter
  that returns the given components, and a merge that appends vertex arrays and shifts face
  indices (an empty mesh for an empty sequence, as recent releases of trimesh do).
\<close>

definition sample_core :: "vec3 list \<Rightarrow> face list \<Rightarrow> int \<Rightarrow> error + scalar_field" where
  "sample_core v f sz =
     Inr \<lparr>shape = (2, 2, 2), entries = [- 1, real (length v), 1, 1, 1, 1, 1, 1]\<rparr>"

definition append_mesh :: "mesh \<Rightarrow> mesh \<Rightarrow> mesh" where
  "append_mesh a b =
     \<lparr>vertices = vertices a @ vertices b,
      faces = faces a @ map (\<lambda>(i, j, k). (i + length (vertices a), j + length (vertices a),
                                          k + length (vertices a))) (faces b)\<rparr>"

definition sample_concatenate :: "mesh list \<Rightarrow> error + mesh" where
  "sample_concatenate ms = Inr (fold (\<lambda>m acc. append_mesh acc m) ms \<lparr>vertices = [], faces = []\<rparr>)"

definition sample_prims :: "mesh list \<Rightarrow> prims" where
  "sample_prims comps =
     \<lparr>core_compute = sample_core,
      mc_polygonize = (\<lambda>volume level. Inr ([(0, 0, 0), (1, 0, 0), (0, 1, 0)], [(0, 1, 2)])),
      as_float32 = (\<lambda>x. x),
      compare_operand = (\<lambda>x. x),
      Trimesh = (\<lambda>v f. Inr \<lparr>vertices = v, faces = f\<rparr>),
      mesh_split = (\<lambda>m. Inr comps),
      concatenate = sample_concatenate\<rparr>"

text \<open>Three one-triangle components: a large one, a small one whose box lies strictly inside
  the box of the large one, and a thin long one.\<close>

definition large_tri :: mesh where
  "large_tri = \<lparr>vertices = [(0, 0, 0), (4, 0, 0), (0, 4, 4)], faces = [(0, 1, 2)]\<rparr>"

definition small_tri :: mesh where
  "small_tri = \<lparr>vertices = [(1, 1, 1), (2, 1, 1), (1, 2, 2)], faces = [(0, 1, 2)]\<rparr>"

definition long_tri :: mesh where
  "long_tri = \<lparr>vertices = [(0, 0, 0), (5, 0, 0), (1, 0, 0)], faces = [(0, 1, 2)]\<rparr>"

section \<open>Facts about the array operations\<close>

lemma amin_Min: "xs \<noteq> [] \<Longrightarrow> amin xs = Min (set xs)"
  by (cases xs) (simp_all add: amin_def flip: Min.set_eq_fold)

lemma amax_Max: "xs \<noteq> [] \<Longrightarrow> amax xs = Max (set xs)"
  by (cases xs) (simp_all add: amax_def flip: Max.set_eq_fold)

lemma amin_le_amax: "xs \<noteq> [] \<Longrightarrow> amin xs \<le> amax xs"
  by (simp add: amin_Min amax_Max)

text \<open>A box returned by \<open>bounds\<close> has its minimum corner below its maximum corner.\<close>

lemma bounds_valid:
  assumes "bounds c = Inr (Some ((x0, y0, z0), (x1, y1, z1)))"
  shows "x0 \<le> x1 \<and> y0 \<le> y1 \<and> z0 \<le> z1"
  using assms
  by (auto simp: bounds_def Let_def vmin_def vmax_def amin_le_amax split: if_splits)

section \<open>The containment loops\<close>

text \<open>For boxes that \<open>bounds\<close> returns, the library test on both corners is the strict
  inclusion of the boxes.\<close>

lemma discards_iff:
  assumes "bounds c = Inr b"
  shows "discards c' b = box_inside c c'"
proof (cases b)
  case None
  then show ?thesis
    using assms by (simp add: discards_def box_inside_def contains_def split: sum.splits option.splits)
next
  case (Some a)
  obtain x0 y0 z0 x1 y1 z1 where a: "a = ((x0, y0, z0), (x1, y1, z1))"
    by (metis prod.exhaust)
  from assms Some a have v: "x0 \<le> x1 \<and> y0 \<le> y1 \<and> z0 \<le> z1"
    using bounds_valid by blast
  show ?thesis
  proof (cases "bounds c'")
    case (Inl e)
    then show ?thesis using assms Some by (simp add: discards_def box_inside_def)
  next
    case (Inr ob)
    show ?thesis
    proof (cases ob)
      case None
      then show ?thesis using assms Some Inr by (simp add: discards_def box_inside_def contains_def)
    next
      case (Some b')
      obtain u0 v0 w0 u1 v1 w1 where b': "b' = ((u0, v0, w0), (u1, v1, w1))"
        by (metis prod.exhaust)
      show ?thesis
        using assms \<open>b = Some a\<close> a Inr Some b' v
        by (auto simp: discards_def box_inside_def contains_def strictly_inside_def
              all_gt_def all_lt_def)
    qed
  qed
qed

lemma inner_loop_result:
  "inner_loop i b js keep = Inr k \<Longrightarrow>
     k = (keep \<and> (\<forall>(j, c) \<in> set js. j \<noteq> i \<longrightarrow> \<not> discards c b))"
proof (induction js arbitrary: keep)
  case Nil
  then show ?case by simp
next
  case (Cons jc js)
  obtain j c where jc: "jc = (j, c)" by (cases jc)
  show ?case
  proof (cases "j = i")
    case True
    with Cons jc show ?thesis by simp
  next
    case False
    from Cons.prems jc False obtain ob fl where
      ob: "bounds c = Inr ob" and fl: "contains ob b = Inr fl"
      and rest: "inner_loop i b js (if list_all id fl then False else keep) = Inr k"
      by (auto split: sum.splits)
    have d: "discards c b = list_all id fl" by (simp add: discards_def ob fl)
    from Cons.IH[OF rest] show ?thesis using jc False d by auto
  qed
qed

lemma inner_loop_total:
  "\<forall>(j, c) \<in> set js. \<exists>a. bounds c = Inr (Some a) \<Longrightarrow> \<exists>k. inner_loop i (Some a0) js keep = Inr k"
proof (induction js arbitrary: keep)
  case Nil
  then show ?case by simp
next
  case (Cons jc js)
  obtain j c where jc: "jc = (j, c)" by (cases jc)
  from Cons.prems jc obtain a where a: "bounds c = Inr (Some a)" by auto
  obtain fl where fl: "contains (Some a) (Some a0) = Inr fl"
    by (cases a; cases a0) (simp add: contains_def)
  from Cons.prems have "\<forall>(j, c) \<in> set js. \<exists>a. bounds c = Inr (Some a)" by simp
  from Cons.IH[OF this] show ?case using jc a fl by simp
qed

lemma outer_loop_result:
  "outer_loop comps rest acc = Inr flags \<Longrightarrow>
     flags = acc @ map (\<lambda>(i, c). \<forall>(j, c') \<in> set comps. j \<noteq> i \<longrightarrow>
                 \<not> discards c' (bounds_or_none c)) rest"
proof (induction rest arbitrary: acc)
  case Nil
  then show ?case by simp
next
  case (Cons ic rest)
  obtain i c where ic: "ic = (i, c)" by (cases ic)
  from Cons.prems ic obtain b k where
    b: "bounds c = Inr b" and k: "inner_loop i b comps True = Inr k"
    and r: "outer_loop comps rest (acc @ [k]) = Inr flags"
    by (auto split: sum.splits)
  from inner_loop_result[OF k] have "k = (\<forall>(j, c') \<in> set comps. j \<noteq> i \<longrightarrow> \<not> discards c' b)" by simp
  with Cons.IH[OF r] show ?case using ic b by (simp add: bounds_or_none_def)
qed

lemma outer_loop_bounds:
  "outer_loop comps rest acc = Inr flags \<Longrightarrow> (i, c) \<in> set rest \<Longrightarrow> \<exists>b. bounds c = Inr b"
  by (induction rest arbitrary: acc) (auto split: sum.splits)

lemma outer_loop_total:
  assumes "\<forall>(j, c) \<in> set comps. \<exists>a. bounds c = Inr (Some a)"
    and "\<forall>(j, c) \<in> set rest. \<exists>a. bounds c = Inr (Some a)"
  shows "\<exists>flags. outer_loop comps rest acc = Inr flags"
  using assms(2)
proof (induction rest arbitrary: acc)
  case Nil
  then show ?case by simp
next
  case (Cons ic rest)
  obtain i c where ic: "ic = (i, c)" by (cases ic)
  from Cons.prems ic obtain a where a: "bounds c = Inr (Some a)" by auto
  from inner_loop_total[OF assms(1)] obtain k where k: "inner_loop i (Some a) comps True = Inr k"
    by blast
  from Cons.prems have "\<forall>(j, c) \<in> set rest. \<exists>a. bounds c = Inr (Some a)" by simp
  from Cons.IH[OF this] show ?case using ic a k by simp
qed

text \<open>The flags the two loops compute, position by position.\<close>

lemma keep_flags_of_result:
  assumes "keep_flags_of cs = Inr flags"
  shows "length flags = length cs"
    and "\<And>i. i < length cs \<Longrightarrow>
           flags ! i = (\<forall>j < length cs. j \<noteq> i \<longrightarrow> \<not> box_inside (cs ! i) (cs ! j))"
proof -
  from assms have o: "outer_loop (enumerate 0 cs) (enumerate 0 cs) [] = Inr flags"
    by (simp add: keep_flags_of_def)
  have f: "flags = map (\<lambda>(i, c). \<forall>(j, c') \<in> set (enumerate 0 cs). j \<noteq> i \<longrightarrow>
                 \<not> discards c' (bounds_or_none c)) (enumerate 0 cs)"
    using outer_loop_result[OF o] by simp
  show "length flags = length cs" by (simp add: f)
  fix i assume i: "i < length cs"
  then have "(i, cs ! i) \<in> set (enumerate 0 cs)" by (simp add: in_set_enumerate_eq)
  from outer_loop_bounds[OF o this] obtain b where b: "bounds (cs ! i) = Inr b" by blast
  then have bn: "bounds_or_none (cs ! i) = b" by (simp add: bounds_or_none_def)
  have "flags ! i = (\<forall>(j, c') \<in> set (enumerate 0 cs). j \<noteq> i \<longrightarrow> \<not> discards c' b)"
    using i by (simp add: f nth_enumerate_eq bn)
  also have "\<dots> = (\<forall>j < length cs. j \<noteq> i \<longrightarrow> \<not> discards (cs ! j) b)"
    by (auto simp: in_set_enumerate_eq)
  also have "\<dots> = (\<forall>j < length cs. j \<noteq> i \<longrightarrow> \<not> box_inside (cs ! i) (cs ! j))"
    by (simp add: discards_iff[OF b])
  finally show "flags ! i = (\<forall>j < length cs. j \<noteq> i \<longrightarrow> \<not> box_inside (cs ! i) (cs ! j))" .
qed

lemma keep_flags_of_total:
  assumes "\<forall>c \<in> set cs. \<exists>a. bounds c = Inr (Some a)"
  shows "\<exists>flags. keep_flags_of cs = Inr flags"
proof -
  have "\<forall>(j, c) \<in> set (enumerate 0 cs). \<exists>a. bounds c = Inr (Some a)"
    using assms by (auto simp: in_set_enumerate_eq)
  then show ?thesis unfolding keep_flags_of_def using outer_loop_total by blast
qed

lemma filter_zip_flags:
  assumes "length flags = length cs"
  shows "map fst (filter snd (zip cs flags)) = map (\<lambda>i. cs ! i) (filter (\<lambda>i. flags ! i) [0..<length cs])"
proof -
  have "zip cs flags = map (\<lambda>i. (cs ! i, flags ! i)) [0..<length cs]"
    using assms by (intro nth_equalityI) simp_all
  then show ?thesis by (simp add: filter_map comp_def)
qed

text \<open>No box lies strictly inside itself, so the guard \<^verbatim>\<open>c_other != c\<close> never changes a flag.\<close>

lemma box_inside_irrefl: "\<not> box_inside c c"
  by (auto simp: box_inside_def strictly_inside_def all_gt_def split: sum.splits option.splits)

section \<open>Evaluations of the sample inputs\<close>

lemma bounds_large_tri: "bounds large_tri = Inr (Some ((0, 0, 0), (4, 4, 4)))"
  by code_simp

lemma bounds_small_tri: "bounds small_tri = Inr (Some ((1, 1, 1), (2, 2, 2)))"
  by code_simp

lemma bounds_long_tri: "bounds long_tri = Inr (Some ((0, 0, 0), (5, 0, 0)))"
  by code_simp

section \<open>The containment policy\<close>

text \<open>
  C1. Under the containment policy (\<^verbatim>\<open>new_fix\<close> true), for components that all have a
  bounding box, the loops return one flag per component; the flag of a component is set if
  and only if no component at another position has a box that strictly contains the box of
  this one; the kept components are those with a set flag, in order, and they are what is
  handed to \<^verbatim>\<open>concatenate\<close>. In particular a component whose box lies strictly inside the
  box of a component that is present is never kept.
\<close>

theorem containment_kept_iff_not_inside:
  assumes "\<forall>c \<in> set cs. \<exists>b. bounds c = Inr (Some b)"
  shows "\<exists>flags. keep_flags_of cs = Inr flags \<and> length flags = length cs \<and>
           kept_components cs = Inr (map (\<lambda>i. cs ! i) (filter (\<lambda>i. flags ! i) [0..<length cs])) \<and>
           select_mesh P True cs =
             ([SELECTED, MERGED],
              concatenate P (map (\<lambda>i. cs ! i) (filter (\<lambda>i. flags ! i) [0..<length cs]))) \<and>
           (\<forall>i < length cs.
              flags ! i \<longleftrightarrow> \<not> (\<exists>j < length cs. j \<noteq> i \<and> box_inside (cs ! i) (cs ! j))) \<and>
           (\<forall>i < length cs. \<forall>j < length cs. box_inside (cs ! i) (cs ! j) \<longrightarrow> \<not> flags ! i)"
proof -
  from keep_flags_of_total[OF assms] obtain flags where fl: "keep_flags_of cs = Inr flags"
    by blast
  note r = keep_flags_of_result[OF fl]
  have kept: "kept_components cs = Inr (map (\<lambda>i. cs ! i) (filter (\<lambda>i. flags ! i) [0..<length cs]))"
    by (simp add: kept_components_def fl filter_zip_flags[OF r(1)])
  have sel: "select_mesh P True cs =
      ([SELECTED, MERGED], concatenate P (map (\<lambda>i. cs ! i) (filter (\<lambda>i. flags ! i) [0..<length cs])))"
    by (simp add: select_mesh_def kept then_run_def enter_def)
  have iff: "\<forall>i < length cs.
      flags ! i \<longleftrightarrow> \<not> (\<exists>j < length cs. j \<noteq> i \<and> box_inside (cs ! i) (cs ! j))"
    using r(2) by blast
  have mono: "\<forall>i < length cs. \<forall>j < length cs. box_inside (cs ! i) (cs ! j) \<longrightarrow> \<not> flags ! i"
  proof (intro allI impI)
    fix i j assume i: "i < length cs" and j: "j < length cs" and b: "box_inside (cs ! i) (cs ! j)"
    from b have "j \<noteq> i" using box_inside_irrefl by auto
    with i j b r(2) show "\<not> flags ! i" by blast
  qed
  from fl r(1) kept sel iff mono show ?thesis by blast
qed

theorem containment_kept_iff_not_inside_witness:
  "bounds large_tri = Inr (Some ((0, 0, 0), (4, 4, 4))) \<and>
   bounds small_tri = Inr (Some ((1, 1, 1), (2, 2, 2))) \<and>
   bounds long_tri = Inr (Some ((0, 0, 0), (5, 0, 0))) \<and>
   box_inside small_tri large_tri \<and>
   (\<exists>flags. keep_flags_of [large_tri, small_tri, long_tri] = Inr flags \<and> length flags = 3 \<and>
      \<not> flags ! 1) \<and>
   kept_components [large_tri, small_tri, long_tri] = Inr [large_tri, long_tri]"
proof -
  let ?cs = "[large_tri, small_tri, long_tri]"
  have h: "\<forall>c \<in> set ?cs. \<exists>b. bounds c = Inr (Some b)"
    by (simp add: bounds_large_tri bounds_small_tri bounds_long_tri)
  have b: "box_inside (?cs ! 1) (?cs ! 0)"
    by (simp add: box_inside_def bounds_large_tri bounds_small_tri strictly_inside_def
          all_gt_def all_lt_def)
  from containment_kept_iff_not_inside[OF h, of "sample_prims []"] obtain flags where
    f: "keep_flags_of ?cs = Inr flags" "length flags = length ?cs"
       "\<forall>i < length ?cs. \<forall>j < length ?cs. box_inside (?cs ! i) (?cs ! j) \<longrightarrow> \<not> flags ! i"
    by blast
  have "(1::nat) < length ?cs" "(0::nat) < length ?cs" by simp_all
  with f(3) b have n: "\<not> flags ! 1" by blast
  have e: "keep_flags_of ?cs = Inr [True, False, True]"
    by code_simp
  have k: "kept_components ?cs = Inr [large_tri, long_tri]"
    by (simp add: kept_components_def e)
  from f(1,2) n have "\<exists>flags. keep_flags_of ?cs = Inr flags \<and> length flags = 3 \<and> \<not> flags ! 1"
    by auto
  with b k show ?thesis
    by (simp add: bounds_large_tri bounds_small_tri bounds_long_tri)
qed

text \<open>
  C10. The containment test uses strict inequalities on the minimum and on the maximum
  corner: each flag of \<open>contains\<close> asks the point to be above the lower corner and below the
  upper corner on every axis. So a box is not contained in an equal box, and two components
  with equal boxes are both kept.
\<close>

theorem equal_boxes_both_kept:
  assumes "bounds A = Inr (Some b)" and "bounds B = Inr (Some b)"
  shows "(\<forall>lx ly lz hx hy hz ax ay az bx by bz.
            contains (Some ((lx, ly, lz), (hx, hy, hz))) (Some ((ax, ay, az), (bx, by, bz))) =
              Inr [(lx < ax \<and> ly < ay \<and> lz < az) \<and> (ax < hx \<and> ay < hy \<and> az < hz),
                   (lx < bx \<and> ly < by \<and> lz < bz) \<and> (bx < hx \<and> by < hy \<and> bz < hz)]) \<and>
         contains (Some b) (Some b) = Inr [False, False] \<and>
         \<not> discards A (Some b) \<and> \<not> discards B (Some b) \<and>
         keep_flags_of [A, B] = Inr [True, True] \<and>
         kept_components [A, B] = Inr [A, B]"
proof -
  obtain x0 y0 z0 x1 y1 z1 where b: "b = ((x0, y0, z0), (x1, y1, z1))"
    by (metis prod.exhaust)
  have c: "contains (Some b) (Some b) = Inr [False, False]"
    by (simp add: b contains_def all_gt_def all_lt_def)
  have d: "\<not> discards A (Some b)" "\<not> discards B (Some b)"
    using assms c by (simp_all add: discards_def)
  have e: "enumerate 0 [A, B] = [(0, A), (Suc 0, B)]" by simp
  have k: "keep_flags_of [A, B] = Inr [True, True]"
    unfolding keep_flags_of_def e using assms c by simp
  have "kept_components [A, B] = Inr [A, B]"
    by (simp add: kept_components_def k)
  with c d k show ?thesis
    by (simp add: contains_def all_gt_def all_lt_def)
qed

theorem equal_boxes_both_kept_witness:
  "bounds large_tri = Inr (Some ((0, 0, 0), (4, 4, 4))) \<and>
   contains (Some ((0, 0, 0), (4, 4, 4))) (Some ((0, 0, 0), (4, 4, 4))) = Inr [False, False] \<and>
   kept_components [large_tri, large_tri] = Inr [large_tri, large_tri]"
  using equal_boxes_both_kept[OF bounds_large_tri bounds_large_tri] bounds_large_tri by simp

section \<open>Runs of the function\<close>

text \<open>The volume that the polygoniser reads in a repair run: the absolute values of the
  first field, converted.\<close>

lemma abs_volume:
  "cast_float32 P (np_abs sdf) =
     \<lparr>shape = shape sdf, entries = map (\<lambda>x. as_float32 P \<bar>x\<bar>) (entries sdf)\<rparr>"
  by (cases sdf) (simp add: cast_float32_def np_abs_def comp_def)

lemma marching_cubes_success:
  assumes "marching_cubes P volume level = Inr (vs, fs)"
  shows "mc_polygonize P (cast_float32 P volume) level = Inr (vs, fs) \<and> vs \<noteq> [] \<and>
         amin (entries (cast_float32 P volume)) \<le> compare_operand P level \<and>
         compare_operand P level \<le> amax (entries (cast_float32 P volume))"
proof -
  obtain n0 n1 n2 where sh: "shape volume = (n0, n1, n2)" by (metis prod.exhaust)
  from assms sh have ok: "\<not> (n0 < 2 \<or> n1 < 2 \<or> n2 < 2)"
    and ne: "entries (cast_float32 P volume) \<noteq> []"
    and rg: "\<not> (compare_operand P level < amin (entries (cast_float32 P volume)) \<or>
                compare_operand P level > amax (entries (cast_float32 P volume)))"
    by (auto simp: marching_cubes_def Let_def split: if_splits)
  from assms sh ok ne rg obtain r where r: "mc_polygonize P (cast_float32 P volume) level = Inr r"
    by (cases "mc_polygonize P (cast_float32 P volume) level")
       (auto simp: marching_cubes_def Let_def)
  obtain vs' fs' where r': "r = (vs', fs')" by (cases r)
  from assms sh ok ne rg r r' have "vs' \<noteq> [] \<and> vs = vs' \<and> fs = fs'"
    by (auto simp: marching_cubes_def Let_def split: if_splits)
  with r r' rg show ?thesis by auto
qed

lemma marching_cubes_out_of_range:
  assumes "entries volume = [] \<or>
           compare_operand P level < amin (map (as_float32 P) (entries volume)) \<or>
           amax (map (as_float32 P) (entries volume)) < compare_operand P level"
  shows "marching_cubes P volume level = Inl (Raised ''ValueError'')"
  using assms
  by (auto simp: marching_cubes_def cast_float32_def Let_def split: prod.splits)

lemma marching_cubes_no_vertex:
  assumes "mc_polygonize P (cast_float32 P volume) level = Inr ([], fs)"
  shows "marching_cubes P volume level = Inl (Raised ''ValueError'') \<or>
         marching_cubes P volume level = Inl (Raised ''RuntimeError'')"
  using assms
  by (auto simp: marching_cubes_def Let_def split: prod.splits)

lemma marching_cubes_no_vertex_in_range:
  assumes "shape volume = (n0, n1, n2)" and "2 \<le> n0" and "2 \<le> n1" and "2 \<le> n2"
    and "entries volume \<noteq> []"
    and "amin (map (as_float32 P) (entries volume)) \<le> compare_operand P level"
    and "compare_operand P level \<le> amax (map (as_float32 P) (entries volume))"
    and "mc_polygonize P (cast_float32 P volume) level = Inr ([], fs)"
  shows "marching_cubes P volume level = Inl (Raised ''RuntimeError'')"
  using assms
  by (auto simp: marching_cubes_def cast_float32_def Let_def)

lemma compute_iso_error:
  assumes "core_compute P v f sz = Inr sdf" and "marching_cubes P (np_abs sdf) level = Inl e"
  shows "compute P v f sz True level return_mesh new_fix = ([FIELD1, ABS, ISO], Inl e)"
  using assms by (simp add: compute_def then_run_def enter_def)

lemma select_mesh_success:
  assumes "select_mesh P new_fix comps = (tr, Inr sel)"
  shows "tr = (if new_fix then [SELECTED, MERGED] else [SELECTED, PICKED])"
  using assms
  by (auto simp: select_mesh_def then_run_def enter_def split: if_splits sum.splits)

lemma select_mesh_stages:
  "fst (select_mesh P new_fix comps) = [SELECTED] \<or>
   fst (select_mesh P new_fix comps) = (if new_fix then [SELECTED, MERGED] else [SELECTED, PICKED])"
  by (auto simp: select_mesh_def then_run_def enter_def split: sum.splits)

text \<open>What a selection that returns has done, by policy.\<close>

lemma select_mesh_returns:
  assumes "select_mesh P new_fix comps = (tr, Inr sel)"
  shows "if new_fix
         then (\<exists>kept. kept_components comps = Inr kept \<and> concatenate P kept = Inr sel)
         else (\<exists>k. max_component comps = Inr k \<and> k < length comps \<and> sel = comps ! k)"
  using assms
  by (auto simp: select_mesh_def then_run_def enter_def item_def split: if_splits sum.splits)

text \<open>Without repair: one stage, and the outcome of the first field pass.\<close>

lemma compute_no_fix:
  "compute P v f sz False level return_mesh new_fix =
     ([FIELD1],
      case core_compute P v f sz of
        Inl e \<Rightarrow> Inl e
      | Inr sdf \<Rightarrow>
          if return_mesh
          then (case Trimesh P v f of Inl e \<Rightarrow> Inl e | Inr m \<Rightarrow> Inr (SdfMesh sdf m))
          else Inr (Sdf sdf))"
  by (simp add: compute_def then_run_def enter_def no_stage_def split: sum.splits)

text \<open>A repair run that returns went through every stage, each fed by the one before.\<close>

lemma compute_fix_success:
  assumes "compute P v f sz True level return_mesh new_fix = (tr, Inr r)"
  shows "\<exists>sdf1 vs fs m0 comps sel m sdf2.
           core_compute P v f sz = Inr sdf1 \<and>
           marching_cubes P (np_abs sdf1) level = Inr (vs, fs) \<and>
           Trimesh P vs fs = Inr m0 \<and>
           mesh_split P m0 = Inr comps \<and>
           select_mesh P new_fix comps =
             (if new_fix then [SELECTED, MERGED] else [SELECTED, PICKED], Inr sel) \<and>
           renormalize sz sel = Inr m \<and>
           core_compute P (vertices m) (faces m) sz = Inr sdf2 \<and>
           r = (if return_mesh then SdfMesh sdf2 m else Sdf sdf2) \<and>
           tr = repair_stages new_fix"
proof -
  from assms obtain sdf1 where s1: "core_compute P v f sz = Inr sdf1"
    by (cases "core_compute P v f sz") (simp_all add: compute_def then_run_def enter_def)
  from assms s1 obtain vs fs where mc: "marching_cubes P (np_abs sdf1) level = Inr (vs, fs)"
    by (cases "marching_cubes P (np_abs sdf1) level")
       (auto simp: compute_def then_run_def enter_def)
  from assms s1 mc obtain m0 where m0: "Trimesh P vs fs = Inr m0"
    by (cases "Trimesh P vs fs") (simp_all add: compute_def then_run_def enter_def no_stage_def)
  from assms s1 mc m0 obtain comps where sp: "mesh_split P m0 = Inr comps"
    by (cases "mesh_split P m0") (simp_all add: compute_def then_run_def enter_def no_stage_def)
  obtain str sres where sel0: "select_mesh P new_fix comps = (str, sres)"
    by (cases "select_mesh P new_fix comps")
  from assms s1 mc m0 sp sel0 obtain sel where sres: "sres = Inr sel"
    by (cases sres) (simp_all add: compute_def then_run_def enter_def no_stage_def)
  from sel0 sres select_mesh_success
  have str: "str = (if new_fix then [SELECTED, MERGED] else [SELECTED, PICKED])" by blast
  from assms s1 mc m0 sp sel0 sres obtain m where rn: "renormalize sz sel = Inr m"
    by (cases "renormalize sz sel") (simp_all add: compute_def then_run_def enter_def no_stage_def)
  from assms s1 mc m0 sp sel0 sres rn obtain sdf2 where
    s2: "core_compute P (vertices m) (faces m) sz = Inr sdf2"
    by (cases "core_compute P (vertices m) (faces m) sz")
       (simp_all add: compute_def then_run_def enter_def no_stage_def)
  from assms s1 mc m0 sp sel0 sres str rn s2
  have fin: "r = (if return_mesh then SdfMesh sdf2 m else Sdf sdf2) \<and> tr = repair_stages new_fix"
    by (auto simp: compute_def then_run_def enter_def no_stage_def repair_stages_def)
  show ?thesis
  proof (intro exI conjI)
    show "core_compute P v f sz = Inr sdf1" by (rule s1)
    show "marching_cubes P (np_abs sdf1) level = Inr (vs, fs)" by (rule mc)
    show "Trimesh P vs fs = Inr m0" by (rule m0)
    show "mesh_split P m0 = Inr comps" by (rule sp)
    show "select_mesh P new_fix comps =
             (if new_fix then [SELECTED, MERGED] else [SELECTED, PICKED], Inr sel)"
      using sel0 sres str by simp
    show "renormalize sz sel = Inr m" by (rule rn)
    show "core_compute P (vertices m) (faces m) sz = Inr sdf2" by (rule s2)
    show "r = (if return_mesh then SdfMesh sdf2 m else Sdf sdf2)" using fin by simp
    show "tr = repair_stages new_fix" using fin by simp
  qed
qed

text \<open>Conversely, when every stage succeeds the run returns.\<close>

lemma compute_fix_compose:
  assumes "core_compute P v f sz = Inr sdf1"
    and "marching_cubes P (np_abs sdf1) level = Inr (vs, fs)"
    and "Trimesh P vs fs = Inr m0"
    and "mesh_split P m0 = Inr comps"
    and "select_mesh P new_fix comps = (str, Inr sel)"
    and "renormalize sz sel = Inr m"
    and "core_compute P (vertices m) (faces m) sz = Inr sdf2"
  shows "compute P v f sz True level return_mesh new_fix =
           (repair_stages new_fix, Inr (if return_mesh then SdfMesh sdf2 m else Sdf sdf2))"
  using assms select_mesh_success[OF assms(5)]
  by (simp add: compute_def then_run_def enter_def no_stage_def repair_stages_def)

text \<open>The stages of any repair run, returning or not, are an initial part of the full list.\<close>

lemma compute_fix_prefix:
  "prefix (fst (compute P v f sz True level return_mesh new_fix)) (repair_stages new_fix)"
proof (cases "core_compute P v f sz")
  case (Inl e)
  then show ?thesis
    by (simp add: compute_def then_run_def enter_def repair_stages_def)
next
  case s1: (Inr sdf1)
  show ?thesis
  proof (cases "marching_cubes P (np_abs sdf1) level")
    case (Inl e)
    with s1 show ?thesis
      by (simp add: compute_def then_run_def enter_def repair_stages_def)
  next
    case (Inr soup)
    obtain vs fs where soup: "soup = (vs, fs)" by (cases soup)
    note mc = Inr[unfolded soup]
    show ?thesis
    proof (cases "Trimesh P vs fs")
      case (Inl e)
      with s1 mc show ?thesis
        by (simp add: compute_def then_run_def enter_def no_stage_def repair_stages_def)
    next
      case m0: (Inr m0)
      show ?thesis
      proof (cases "mesh_split P m0")
        case (Inl e)
        with s1 mc m0 show ?thesis
          by (simp add: compute_def then_run_def enter_def no_stage_def repair_stages_def)
      next
        case sp: (Inr comps)
        obtain str sres where sel0: "select_mesh P new_fix comps = (str, sres)"
          by (cases "select_mesh P new_fix comps")
        show ?thesis
        proof (cases sres)
          case (Inl e)
          from select_mesh_stages[of P new_fix comps] sel0
          have "str = [SELECTED] \<or>
                str = (if new_fix then [SELECTED, MERGED] else [SELECTED, PICKED])" by simp
          with s1 mc m0 sp sel0 Inl show ?thesis
            by (auto simp: compute_def then_run_def enter_def no_stage_def repair_stages_def
                  split: if_splits)
        next
          case (Inr sel)
          with sel0 select_mesh_success
          have str: "str = (if new_fix then [SELECTED, MERGED] else [SELECTED, PICKED])" by blast
          show ?thesis
            using s1 mc m0 sp sel0 Inr str
            by (auto simp: compute_def then_run_def enter_def no_stage_def repair_stages_def
                  split: sum.splits if_splits)
        qed
      qed
    qed
  qed
qed

lemma level_above_amax:
  assumes "xs \<noteq> []" and "\<forall>x \<in> set xs. g x < level"
  shows "amax (map g xs) < level"
proof -
  have "Max (set (map g xs)) < level"
    using assms by (subst Max_less_iff) auto
  then show ?thesis using assms(1) by (simp add: amax_Max)
qed

lemma level_below_amin:
  assumes "xs \<noteq> []" and "\<forall>x \<in> set xs. level < g x"
  shows "level < amin (map g xs)"
proof -
  have "level < Min (set (map g xs))"
    using assms by (subst Min_gr_iff) auto
  then show ?thesis using assms(1) by (simp add: amin_Min)
qed

text \<open>The sample primitives on a one-vertex input, with grid size 3.\<close>

lemma sample_run_containment:
  "compute (sample_prims [large_tri, small_tri]) [(0, 0, 0)] [] 3 True 1 True True =
     ([FIELD1, ABS, ISO, SPLIT, SELECTED, MERGED, RENORMALIZED, FIELD2],
      Inr (SdfMesh \<lparr>shape = (2, 2, 2), entries = [- 1, 3, 1, 1, 1, 1, 1, 1]\<rparr>
             \<lparr>vertices = [(- 1, - 1, - 1), (3, - 1, - 1), (- 1, 3, 3)], faces = [(0, 1, 2)]\<rparr>))"
  by code_simp

lemma sample_run_level_5:
  "compute (sample_prims []) [(0, 0, 0)] [] 3 True 5 False True =
     ([FIELD1, ABS, ISO], Inl (Raised ''ValueError''))"
  by code_simp

lemma sample_run_no_vertex:
  "compute ((sample_prims [])\<lparr>mc_polygonize := (\<lambda>volume level. Inr ([], []))\<rparr>)
      [(0, 0, 0)] [] 3 True 1 False True =
     ([FIELD1, ABS, ISO], Inl (Raised ''RuntimeError''))"
  by code_simp

lemma sample_run_single_pick:
  "compute ((sample_prims [large_tri, long_tri])\<lparr>concatenate := (\<lambda>ms. Inl (Raised ''NotCalled''))\<rparr>)
      [(0, 0, 0)] [] 3 True 1 True False =
     ([FIELD1, ABS, ISO, SPLIT, SELECTED, PICKED, RENORMALIZED, FIELD2],
      Inr (SdfMesh \<lparr>shape = (2, 2, 2), entries = [- 1, 3, 1, 1, 1, 1, 1, 1]\<rparr>
             \<lparr>vertices = [(- 1, - 1, - 1), (4, - 1, - 1), (0, - 1, - 1)], faces = [(0, 1, 2)]\<rparr>))"
  by code_simp

lemma sample_run_merge_raises:
  "compute ((sample_prims [large_tri, long_tri])\<lparr>concatenate := (\<lambda>ms. Inl (Raised ''NotCalled''))\<rparr>)
      [(0, 0, 0)] [] 3 True 1 True True =
     ([FIELD1, ABS, ISO, SPLIT, SELECTED, MERGED], Inl (Raised ''NotCalled''))"
  by code_simp

section \<open>The run without repair\<close>

text \<open>
  C6. With \<^verbatim>\<open>fix\<close> false the only stage is the first field pass. The function returns the
  field of that pass as it is (paired with the mesh built from the input when
  \<^verbatim>\<open>return_mesh\<close> is set), or raises what the pass or the mesh constructor raised. The
  outcome is the same whatever the polygoniser, the splitter and the merge are: none of them
  is called.
\<close>

theorem no_fix_single_pass:
  "compute P v f sz False level return_mesh new_fix =
     ([FIELD1],
      case core_compute P v f sz of
        Inl e \<Rightarrow> Inl e
      | Inr sdf \<Rightarrow>
          if return_mesh
          then (case Trimesh P v f of Inl e \<Rightarrow> Inl e | Inr m \<Rightarrow> Inr (SdfMesh sdf m))
          else Inr (Sdf sdf)) \<and>
   compute (P\<lparr>mc_polygonize := mc, mesh_split := sp, concatenate := cc\<rparr>) v f sz False level
       return_mesh new_fix =
     compute P v f sz False level return_mesh new_fix"
  by (simp add: compute_no_fix split: sum.splits)

section \<open>The repair run\<close>

text \<open>
  C7 (as the function behaves). With \<^verbatim>\<open>fix\<close> true the stages a run starts are an initial
  part of: first field pass, absolute value, iso-surface extraction, split, selection, then
  the merge of the kept components under the containment policy or the indexing of the
  picked component under the single-pick policy, renormalisation, second field pass. A run
  that returns has started all of them, and each worked on the output of the one before:
  the polygoniser read the element-wise absolute values of the first field (converted to
  \<^verbatim>\<open>np.float32\<close>) at \<^verbatim>\<open>level\<close>, which lies within their range, and produced at least one
  vertex; the split read the mesh of the extracted arrays; the selection read the
  components; under the containment policy \<^verbatim>\<open>concatenate\<close> merged the kept components,
  under the single-pick policy the component at the picked index was taken as it is and
  nothing was merged; the renormalisation mapped every coordinate \<open>x\<close> of that mesh to
  \<open>x * (2 / (size - 1)) - 1\<close>; the returned field is the second pass on the renormalised
  mesh.
\<close>

theorem repair_stage_order:
  "prefix (fst (compute P v f sz True level return_mesh new_fix))
     [FIELD1, ABS, ISO, SPLIT, SELECTED, if new_fix then MERGED else PICKED, RENORMALIZED,
      FIELD2] \<and>
   (\<forall>tr r. compute P v f sz True level return_mesh new_fix = (tr, Inr r) \<longrightarrow>
      tr = [FIELD1, ABS, ISO, SPLIT, SELECTED, if new_fix then MERGED else PICKED, RENORMALIZED,
            FIELD2] \<and>
      (\<exists>sdf1 vs fs m0 comps sel (m::mesh).
         core_compute P v f sz = Inr sdf1 \<and>
         mc_polygonize P
           \<lparr>shape = shape sdf1, entries = map (\<lambda>x. as_float32 P \<bar>x\<bar>) (entries sdf1)\<rparr> level =
           Inr (vs, fs) \<and>
         vs \<noteq> [] \<and>
         amin (map (\<lambda>x. as_float32 P \<bar>x\<bar>) (entries sdf1)) \<le> compare_operand P level \<and>
         compare_operand P level \<le> amax (map (\<lambda>x. as_float32 P \<bar>x\<bar>) (entries sdf1)) \<and>
         Trimesh P vs fs = Inr m0 \<and>
         mesh_split P m0 = Inr comps \<and>
         (if new_fix
          then (\<exists>kept. kept_components comps = Inr kept \<and> concatenate P kept = Inr sel)
          else (\<exists>k. max_component comps = Inr k \<and> k < length comps \<and> sel = comps ! k)) \<and>
         sz \<noteq> 1 \<and>
         vertices m =
           map (\<lambda>(x, y, z). (x * (2 / (real_of_int sz - 1)) - 1,
                              y * (2 / (real_of_int sz - 1)) - 1,
                              z * (2 / (real_of_int sz - 1)) - 1)) (vertices sel) \<and>
         faces m = faces sel \<and>
         core_compute P (vertices m) (faces m) sz = Inr (field_of r)))"
proof -
  have p: "prefix (fst (compute P v f sz True level return_mesh new_fix))
     [FIELD1, ABS, ISO, SPLIT, SELECTED, if new_fix then MERGED else PICKED, RENORMALIZED,
      FIELD2]"
    using compute_fix_prefix[of P v f sz level return_mesh new_fix]
    by (simp add: repair_stages_def)
  have s: "tr = [FIELD1, ABS, ISO, SPLIT, SELECTED, if new_fix then MERGED else PICKED,
                 RENORMALIZED, FIELD2] \<and>
      (\<exists>sdf1 vs fs m0 comps sel (m::mesh).
         core_compute P v f sz = Inr sdf1 \<and>
         mc_polygonize P
           \<lparr>shape = shape sdf1, entries = map (\<lambda>x. as_float32 P \<bar>x\<bar>) (entries sdf1)\<rparr> level =
           Inr (vs, fs) \<and>
         vs \<noteq> [] \<and>
         amin (map (\<lambda>x. as_float32 P \<bar>x\<bar>) (entries sdf1)) \<le> compare_operand P level \<and>
         compare_operand P level \<le> amax (map (\<lambda>x. as_float32 P \<bar>x\<bar>) (entries sdf1)) \<and>
         Trimesh P vs fs = Inr m0 \<and>
         mesh_split P m0 = Inr comps \<and>
         (if new_fix
          then (\<exists>kept. kept_components comps = Inr kept \<and> concatenate P kept = Inr sel)
          else (\<exists>k. max_component comps = Inr k \<and> k < length comps \<and> sel = comps ! k)) \<and>
         sz \<noteq> 1 \<and>
         vertices m =
           map (\<lambda>(x, y, z). (x * (2 / (real_of_int sz - 1)) - 1,
                              y * (2 / (real_of_int sz - 1)) - 1,
                              z * (2 / (real_of_int sz - 1)) - 1)) (vertices sel) \<and>
         faces m = faces sel \<and>
         core_compute P (vertices m) (faces m) sz = Inr (field_of r))"
    if run: "compute P v f sz True level return_mesh new_fix = (tr, Inr r)" for tr r
  proof -
    from compute_fix_success[OF run] obtain sdf1 vs fs m0 comps sel m sdf2 where
      c: "core_compute P v f sz = Inr sdf1"
         "marching_cubes P (np_abs sdf1) level = Inr (vs, fs)"
         "Trimesh P vs fs = Inr m0"
         "mesh_split P m0 = Inr comps"
         "select_mesh P new_fix comps =
            (if new_fix then [SELECTED, MERGED] else [SELECTED, PICKED], Inr sel)"
         "renormalize sz sel = Inr m"
         "core_compute P (vertices m) (faces m) sz = Inr sdf2"
         "r = (if return_mesh then SdfMesh sdf2 m else Sdf sdf2)"
         "tr = repair_stages new_fix"
      by blast
    note mc = marching_cubes_success[OF c(2), unfolded abs_volume]
    from c(6) have n: "sz \<noteq> 1"
      and vm: "vertices m =
           map (\<lambda>(x, y, z). (x * (2 / (real_of_int sz - 1)) - 1,
                              y * (2 / (real_of_int sz - 1)) - 1,
                              z * (2 / (real_of_int sz - 1)) - 1)) (vertices sel)"
      and fm: "faces m = faces sel"
      by (auto simp: renormalize_def renorm_coord_def split: if_splits)
    show ?thesis
    proof (intro conjI exI)
      show "tr = [FIELD1, ABS, ISO, SPLIT, SELECTED, if new_fix then MERGED else PICKED,
                  RENORMALIZED, FIELD2]"
        using c(9) by (simp add: repair_stages_def)
      show "core_compute P v f sz = Inr sdf1" by (rule c(1))
      show "mc_polygonize P
           \<lparr>shape = shape sdf1, entries = map (\<lambda>x. as_float32 P \<bar>x\<bar>) (entries sdf1)\<rparr> level =
           Inr (vs, fs)"
        using mc by simp
      show "vs \<noteq> []" using mc by simp
      show "amin (map (\<lambda>x. as_float32 P \<bar>x\<bar>) (entries sdf1)) \<le> compare_operand P level"
        using mc by simp
      show "compare_operand P level \<le> amax (map (\<lambda>x. as_float32 P \<bar>x\<bar>) (entries sdf1))"
        using mc by simp
      show "Trimesh P vs fs = Inr m0" by (rule c(3))
      show "mesh_split P m0 = Inr comps" by (rule c(4))
      show "if new_fix
          then (\<exists>kept. kept_components comps = Inr kept \<and> concatenate P kept = Inr sel)
          else (\<exists>k. max_component comps = Inr k \<and> k < length comps \<and> sel = comps ! k)"
        by (rule select_mesh_returns[OF c(5)])
      show "sz \<noteq> 1" by (rule n)
      show "vertices m =
           map (\<lambda>(x, y, z). (x * (2 / (real_of_int sz - 1)) - 1,
                              y * (2 / (real_of_int sz - 1)) - 1,
                              z * (2 / (real_of_int sz - 1)) - 1)) (vertices sel)" by (rule vm)
      show "faces m = faces sel" by (rule fm)
      show "core_compute P (vertices m) (faces m) sz = Inr (field_of r)" using c(7,8) by simp
    qed
  qed
  from p s show ?thesis by blast
qed

theorem repair_stage_order_witness:
  "snd (compute (sample_prims [large_tri, small_tri]) [(0, 0, 0)] [] 3 True 1 True True) =
     Inr (SdfMesh \<lparr>shape = (2, 2, 2), entries = [- 1, 3, 1, 1, 1, 1, 1, 1]\<rparr>
            \<lparr>vertices = [(- 1, - 1, - 1), (3, - 1, - 1), (- 1, 3, 3)], faces = [(0, 1, 2)]\<rparr>) \<and>
   fst (compute (sample_prims [large_tri, small_tri]) [(0, 0, 0)] [] 3 True 1 True True) =
     [FIELD1, ABS, ISO, SPLIT, SELECTED, MERGED, RENORMALIZED, FIELD2]"
proof -
  let ?run = "compute (sample_prims [large_tri, small_tri]) [(0, 0, 0)] [] 3 True 1 True True"
  let ?r = "SdfMesh \<lparr>shape = (2, 2, 2), entries = [- 1, 3, 1, 1, 1, 1, 1, 1]\<rparr>
            \<lparr>vertices = [(- 1, - 1, - 1), (3, - 1, - 1), (- 1, 3, 3)], faces = [(0, 1, 2)]\<rparr>"
  have s: "snd ?run = Inr ?r" by (simp add: sample_run_containment)
  then have "?run = (fst ?run, Inr ?r)" by (metis prod.collapse)
  with repair_stage_order[of "sample_prims [large_tri, small_tri]" "[(0, 0, 0)]" "[]" 3 1 True True]
  have "fst ?run = [FIELD1, ABS, ISO, SPLIT, SELECTED, if True then MERGED else PICKED,
                    RENORMALIZED, FIELD2]" by blast
  with s show ?thesis by simp
qed

text \<open>The claim as written, a merge in every repair run, fails under the single-pick
  policy: with a \<^verbatim>\<open>concatenate\<close> that raises whenever it is called, the run with
  \<^verbatim>\<open>new_fix\<close> false returns all the same, and the one with \<^verbatim>\<open>new_fix\<close> true stops in the
  merge.\<close>

theorem no_merge_on_single_pick_counterexample:
  "compute ((sample_prims [large_tri, long_tri])\<lparr>concatenate := (\<lambda>ms. Inl (Raised ''NotCalled''))\<rparr>)
      [(0, 0, 0)] [] 3 True 1 True False =
     ([FIELD1, ABS, ISO, SPLIT, SELECTED, PICKED, RENORMALIZED, FIELD2],
      Inr (SdfMesh \<lparr>shape = (2, 2, 2), entries = [- 1, 3, 1, 1, 1, 1, 1, 1]\<rparr>
             \<lparr>vertices = [(- 1, - 1, - 1), (4, - 1, - 1), (0, - 1, - 1)], faces = [(0, 1, 2)]\<rparr>)) \<and>
   compute ((sample_prims [large_tri, long_tri])\<lparr>concatenate := (\<lambda>ms. Inl (Raised ''NotCalled''))\<rparr>)
      [(0, 0, 0)] [] 3 True 1 True True =
     ([FIELD1, ABS, ISO, SPLIT, SELECTED, MERGED], Inl (Raised ''NotCalled''))"
  by (simp only: sample_run_single_pick sample_run_merge_raises simp_thms)

text \<open>
  C3. In a repair run that returns, the mesh handed to the second field pass has the faces
  of the selected (merged) mesh and, vertex by vertex, the coordinates
  \<open>x * (2 / (size - 1)) - 1\<close> of that mesh; \<^verbatim>\<open>size\<close> is then not 1.
\<close>

theorem renormalized_before_second_pass:
  assumes "compute P v f sz True level return_mesh new_fix = (tr, Inr r)"
  shows "\<exists>sdf1 vs fs m0 comps sel (m::mesh).
           core_compute P v f sz = Inr sdf1 \<and>
           marching_cubes P (np_abs sdf1) level = Inr (vs, fs) \<and>
           Trimesh P vs fs = Inr m0 \<and>
           mesh_split P m0 = Inr comps \<and>
           select_mesh P new_fix comps =
             (if new_fix then [SELECTED, MERGED] else [SELECTED, PICKED], Inr sel) \<and>
           sz \<noteq> 1 \<and>
           vertices m =
             map (\<lambda>(x, y, z). (x * (2 / (real_of_int sz - 1)) - 1,
                                y * (2 / (real_of_int sz - 1)) - 1,
                                z * (2 / (real_of_int sz - 1)) - 1)) (vertices sel) \<and>
           faces m = faces sel \<and>
           core_compute P (vertices m) (faces m) sz = Inr (field_of r)"
proof -
  from compute_fix_success[OF assms] obtain sdf1 vs fs m0 comps sel m sdf2 where
    c: "core_compute P v f sz = Inr sdf1"
       "marching_cubes P (np_abs sdf1) level = Inr (vs, fs)"
       "Trimesh P vs fs = Inr m0"
       "mesh_split P m0 = Inr comps"
       "select_mesh P new_fix comps =
             (if new_fix then [SELECTED, MERGED] else [SELECTED, PICKED], Inr sel)"
       "renormalize sz sel = Inr m"
       "core_compute P (vertices m) (faces m) sz = Inr sdf2"
       "r = (if return_mesh then SdfMesh sdf2 m else Sdf sdf2)"
    by blast
  from c(6) have n: "sz \<noteq> 1"
    and vm: "vertices m =
             map (\<lambda>(x, y, z). (x * (2 / (real_of_int sz - 1)) - 1,
                                y * (2 / (real_of_int sz - 1)) - 1,
                                z * (2 / (real_of_int sz - 1)) - 1)) (vertices sel)"
    and fm: "faces m = faces sel"
    by (auto simp: renormalize_def renorm_coord_def split: if_splits)
  show ?thesis
  proof (intro exI conjI)
    show "core_compute P v f sz = Inr sdf1" by (rule c(1))
    show "marching_cubes P (np_abs sdf1) level = Inr (vs, fs)" by (rule c(2))
    show "Trimesh P vs fs = Inr m0" by (rule c(3))
    show "mesh_split P m0 = Inr comps" by (rule c(4))
    show "select_mesh P new_fix comps =
             (if new_fix then [SELECTED, MERGED] else [SELECTED, PICKED], Inr sel)" by (rule c(5))
    show "sz \<noteq> 1" by (rule n)
    show "vertices m =
             map (\<lambda>(x, y, z). (x * (2 / (real_of_int sz - 1)) - 1,
                                y * (2 / (real_of_int sz - 1)) - 1,
                                z * (2 / (real_of_int sz - 1)) - 1)) (vertices sel)" by (rule vm)
    show "faces m = faces sel" by (rule fm)
    show "core_compute P (vertices m) (faces m) sz = Inr (field_of r)" using c(7,8) by simp
  qed
qed

theorem renormalized_before_second_pass_witness:
  "compute (sample_prims [large_tri, small_tri]) [(0, 0, 0)] [] 3 True 1 True True =
     ([FIELD1, ABS, ISO, SPLIT, SELECTED, MERGED, RENORMALIZED, FIELD2],
      Inr (SdfMesh \<lparr>shape = (2, 2, 2), entries = [- 1, 3, 1, 1, 1, 1, 1, 1]\<rparr>
             \<lparr>vertices = [(- 1, - 1, - 1), (3, - 1, - 1), (- 1, 3, 3)], faces = [(0, 1, 2)]\<rparr>)) \<and>
   (\<exists>sdf1 vs fs m0 comps sel (m::mesh).
      core_compute (sample_prims [large_tri, small_tri]) [(0, 0, 0)] [] 3 = Inr sdf1 \<and>
      marching_cubes (sample_prims [large_tri, small_tri]) (np_abs sdf1) 1 = Inr (vs, fs) \<and>
      Trimesh (sample_prims [large_tri, small_tri]) vs fs = Inr m0 \<and>
      mesh_split (sample_prims [large_tri, small_tri]) m0 = Inr comps \<and>
      select_mesh (sample_prims [large_tri, small_tri]) True comps =
        ([SELECTED, MERGED], Inr sel) \<and>
      (3::int) \<noteq> 1 \<and>
      vertices m =
        map (\<lambda>(x, y, z). (x * (2 / (real_of_int 3 - 1)) - 1,
                           y * (2 / (real_of_int 3 - 1)) - 1,
                           z * (2 / (real_of_int 3 - 1)) - 1)) (vertices sel) \<and>
      faces m = faces sel \<and>
      core_compute (sample_prims [large_tri, small_tri]) (vertices m) (faces m) 3 =
        Inr (field_of
               (SdfMesh \<lparr>shape = (2, 2, 2), entries = [- 1, 3, 1, 1, 1, 1, 1, 1]\<rparr>
                  \<lparr>vertices = [(- 1, - 1, - 1), (3, - 1, - 1), (- 1, 3, 3)],
                   faces = [(0, 1, 2)]\<rparr>)))"
proof (rule conjI)
  show "compute (sample_prims [large_tri, small_tri]) [(0, 0, 0)] [] 3 True 1 True True =
     ([FIELD1, ABS, ISO, SPLIT, SELECTED, MERGED, RENORMALIZED, FIELD2],
      Inr (SdfMesh \<lparr>shape = (2, 2, 2), entries = [- 1, 3, 1, 1, 1, 1, 1, 1]\<rparr>
             \<lparr>vertices = [(- 1, - 1, - 1), (3, - 1, - 1), (- 1, 3, 3)], faces = [(0, 1, 2)]\<rparr>))"
    by (rule sample_run_containment)
next
  show "\<exists>sdf1 vs fs m0 comps sel (m::mesh).
      core_compute (sample_prims [large_tri, small_tri]) [(0, 0, 0)] [] 3 = Inr sdf1 \<and>
      marching_cubes (sample_prims [large_tri, small_tri]) (np_abs sdf1) 1 = Inr (vs, fs) \<and>
      Trimesh (sample_prims [large_tri, small_tri]) vs fs = Inr m0 \<and>
      mesh_split (sample_prims [large_tri, small_tri]) m0 = Inr comps \<and>
      select_mesh (sample_prims [large_tri, small_tri]) True comps =
        ([SELECTED, MERGED], Inr sel) \<and>
      (3::int) \<noteq> 1 \<and>
      vertices m =
        map (\<lambda>(x, y, z). (x * (2 / (real_of_int 3 - 1)) - 1,
                           y * (2 / (real_of_int 3 - 1)) - 1,
                           z * (2 / (real_of_int 3 - 1)) - 1)) (vertices sel) \<and>
      faces m = faces sel \<and>
      core_compute (sample_prims [large_tri, small_tri]) (vertices m) (faces m) 3 =
        Inr (field_of
               (SdfMesh \<lparr>shape = (2, 2, 2), entries = [- 1, 3, 1, 1, 1, 1, 1, 1]\<rparr>
                  \<lparr>vertices = [(- 1, - 1, - 1), (3, - 1, - 1), (- 1, 3, 3)],
                   faces = [(0, 1, 2)]\<rparr>))"
    using renormalized_before_second_pass[OF sample_run_containment]
    by (simp only: if_True)
qed

text \<open>
  C9. With \<^verbatim>\<open>return_mesh\<close> set the function returns a pair. Without repair it is the field
  of the first pass and the mesh built from the input arrays. With repair it is the field
  of the second pass and the mesh that pass was run on: the selected mesh, renormalised.
  With \<^verbatim>\<open>return_mesh\<close> not set, a run that returns gives the field alone.
\<close>

theorem return_mesh_pairs_field_with_its_mesh:
  "snd (compute P v f sz False level True new_fix) =
     (case core_compute P v f sz of
        Inl e \<Rightarrow> Inl e
      | Inr sdf \<Rightarrow> (case Trimesh P v f of Inl e \<Rightarrow> Inl e | Inr m \<Rightarrow> Inr (SdfMesh sdf m))) \<and>
   (\<forall>tr r. compute P v f sz True level True new_fix = (tr, Inr r) \<longrightarrow>
      (\<exists>sdf1 vs fs m0 comps sel m sdf2.
         core_compute P v f sz = Inr sdf1 \<and>
         marching_cubes P (np_abs sdf1) level = Inr (vs, fs) \<and>
         Trimesh P vs fs = Inr m0 \<and>
         mesh_split P m0 = Inr comps \<and>
         select_mesh P new_fix comps =
             (if new_fix then [SELECTED, MERGED] else [SELECTED, PICKED], Inr sel) \<and>
         renormalize sz sel = Inr m \<and>
         core_compute P (vertices m) (faces m) sz = Inr sdf2 \<and>
         r = SdfMesh sdf2 m)) \<and>
   (\<forall>fix tr r. compute P v f sz fix level False new_fix = (tr, Inr r) \<longrightarrow>
      r = Sdf (field_of r) \<and> mesh_of r = None)"
proof (intro conjI allI impI)
  show "snd (compute P v f sz False level True new_fix) =
     (case core_compute P v f sz of
        Inl e \<Rightarrow> Inl e
      | Inr sdf \<Rightarrow> (case Trimesh P v f of Inl e \<Rightarrow> Inl e | Inr m \<Rightarrow> Inr (SdfMesh sdf m)))"
    by (simp add: compute_no_fix split: sum.splits)
next
  fix tr r
  assume a: "compute P v f sz True level True new_fix = (tr, Inr r)"
  from compute_fix_success[OF a] obtain sdf1 vs fs m0 comps sel m sdf2 where
    c: "core_compute P v f sz = Inr sdf1"
       "marching_cubes P (np_abs sdf1) level = Inr (vs, fs)"
       "Trimesh P vs fs = Inr m0"
       "mesh_split P m0 = Inr comps"
       "select_mesh P new_fix comps =
             (if new_fix then [SELECTED, MERGED] else [SELECTED, PICKED], Inr sel)"
       "renormalize sz sel = Inr m"
       "core_compute P (vertices m) (faces m) sz = Inr sdf2"
       "r = (if True then SdfMesh sdf2 m else Sdf sdf2)"
    by blast
  show "\<exists>sdf1 vs fs m0 comps sel m sdf2.
         core_compute P v f sz = Inr sdf1 \<and>
         marching_cubes P (np_abs sdf1) level = Inr (vs, fs) \<and>
         Trimesh P vs fs = Inr m0 \<and>
         mesh_split P m0 = Inr comps \<and>
         select_mesh P new_fix comps =
             (if new_fix then [SELECTED, MERGED] else [SELECTED, PICKED], Inr sel) \<and>
         renormalize sz sel = Inr m \<and>
         core_compute P (vertices m) (faces m) sz = Inr sdf2 \<and>
         r = SdfMesh sdf2 m"
  proof (intro exI conjI)
    show "core_compute P v f sz = Inr sdf1" by (rule c(1))
    show "marching_cubes P (np_abs sdf1) level = Inr (vs, fs)" by (rule c(2))
    show "Trimesh P vs fs = Inr m0" by (rule c(3))
    show "mesh_split P m0 = Inr comps" by (rule c(4))
    show "select_mesh P new_fix comps =
             (if new_fix then [SELECTED, MERGED] else [SELECTED, PICKED], Inr sel)" by (rule c(5))
    show "renormalize sz sel = Inr m" by (rule c(6))
    show "core_compute P (vertices m) (faces m) sz = Inr sdf2" by (rule c(7))
    show "r = SdfMesh sdf2 m" using c(8) by simp
  qed
next
  fix fx tr r
  assume a: "compute P v f sz fx level False new_fix = (tr, Inr r)"
  have "\<exists>sdf. r = Sdf sdf"
  proof (cases fx)
    case True
    with a compute_fix_success[of P v f sz level False new_fix tr r] show ?thesis by auto
  next
    case False
    with a show ?thesis by (auto simp: compute_no_fix split: sum.splits)
  qed
  then show "r = Sdf (field_of r)" and "mesh_of r = None" by auto
qed

theorem return_mesh_pairs_field_with_its_mesh_witness:
  "compute (sample_prims [large_tri, small_tri]) [(0, 0, 0)] [] 3 True 1 True True =
     ([FIELD1, ABS, ISO, SPLIT, SELECTED, MERGED, RENORMALIZED, FIELD2],
      Inr (SdfMesh \<lparr>shape = (2, 2, 2), entries = [- 1, 3, 1, 1, 1, 1, 1, 1]\<rparr>
             \<lparr>vertices = [(- 1, - 1, - 1), (3, - 1, - 1), (- 1, 3, 3)], faces = [(0, 1, 2)]\<rparr>)) \<and>
   sample_core [(- 1, - 1, - 1), (3, - 1, - 1), (- 1, 3, 3)] [(0, 1, 2)] 3 =
     Inr \<lparr>shape = (2, 2, 2), entries = [- 1, 3, 1, 1, 1, 1, 1, 1]\<rparr> \<and>
   compute (sample_prims [large_tri, small_tri]) [(0, 0, 0)] [] 3 False 1 True True =
     ([FIELD1],
      Inr (SdfMesh \<lparr>shape = (2, 2, 2), entries = [- 1, 1, 1, 1, 1, 1, 1, 1]\<rparr>
             \<lparr>vertices = [(0, 0, 0)], faces = []\<rparr>)) \<and>
   compute (sample_prims [large_tri, small_tri]) [(0, 0, 0)] [] 3 True 1 False True =
     ([FIELD1, ABS, ISO, SPLIT, SELECTED, MERGED, RENORMALIZED, FIELD2],
      Inr (Sdf \<lparr>shape = (2, 2, 2), entries = [- 1, 3, 1, 1, 1, 1, 1, 1]\<rparr>))"
proof -
  let ?P = "sample_prims [large_tri, small_tri]"
  let ?m = "\<lparr>vertices = [(- 1, - 1, - 1), (3, - 1, - 1), (- 1, 3, 3)], faces = [(0, 1, 2)]\<rparr>"
  let ?s = "\<lparr>shape = (2, 2, 2), entries = [- 1, 3, 1, 1, 1, 1, 1, 1::real]\<rparr>"
  from return_mesh_pairs_field_with_its_mesh[of ?P "[(0, 0, 0)]" "[]" 3 1 True]
    sample_run_containment
  obtain m sdf2 where "core_compute ?P (vertices m) (faces m) 3 = Inr sdf2"
    and "SdfMesh ?s ?m = SdfMesh sdf2 m"
    by blast
  then have 1: "sample_core [(- 1, - 1, - 1), (3, - 1, - 1), (- 1, 3, 3)] [(0, 1, 2)] 3 = Inr ?s"
    by (auto simp: sample_prims_def)
  have 2: "compute ?P [(0, 0, 0)] [] 3 False 1 True True =
     ([FIELD1],
      Inr (SdfMesh \<lparr>shape = (2, 2, 2), entries = [- 1, 1, 1, 1, 1, 1, 1, 1]\<rparr>
             \<lparr>vertices = [(0, 0, 0)], faces = []\<rparr>))"
    by code_simp
  have 3: "compute ?P [(0, 0, 0)] [] 3 True 1 False True =
     ([FIELD1, ABS, ISO, SPLIT, SELECTED, MERGED, RENORMALIZED, FIELD2], Inr (Sdf ?s))"
    by code_simp
  from sample_run_containment 1 2 3 show ?thesis by simp
qed

section \<open>A level outside the field\<close>

text \<open>
  C4 (as the function behaves). The function has no check of its own; when the level does
  not meet the absolute values of the first field, the repair run stops in the iso-surface
  extraction, before the split is started, with the exception of \<^verbatim>\<open>marching_cubes\<close>:
  \<^item> \<^verbatim>\<open>ValueError\<close> when the level compares above every absolute value of the field, or
    below every one, the values being converted to \<^verbatim>\<open>np.float32\<close> first;
  \<^item> \<^verbatim>\<open>RuntimeError\<close> when the level is within their range and the polygoniser produces
    no vertex (and one of the two whenever it produces no vertex);
  \<^item> in general, whatever \<^verbatim>\<open>marching_cubes\<close> raises.
  No exception is named for the case.
\<close>

theorem level_not_meeting_field_raises_library_error:
  assumes "core_compute P v f sz = Inr sdf"
  shows "((\<forall>x \<in> set (entries sdf). as_float32 P \<bar>x\<bar> < compare_operand P level) \<longrightarrow>
            compute P v f sz True level return_mesh new_fix =
              ([FIELD1, ABS, ISO], Inl (Raised ''ValueError''))) \<and>
         ((\<forall>x \<in> set (entries sdf). compare_operand P level < as_float32 P \<bar>x\<bar>) \<longrightarrow>
            compute P v f sz True level return_mesh new_fix =
              ([FIELD1, ABS, ISO], Inl (Raised ''ValueError''))) \<and>
         (\<forall>fs n0 n1 n2.
            shape sdf = (n0, n1, n2) \<and> 2 \<le> n0 \<and> 2 \<le> n1 \<and> 2 \<le> n2 \<and> entries sdf \<noteq> [] \<and>
            amin (map (\<lambda>x. as_float32 P \<bar>x\<bar>) (entries sdf)) \<le> compare_operand P level \<and>
            compare_operand P level \<le> amax (map (\<lambda>x. as_float32 P \<bar>x\<bar>) (entries sdf)) \<and>
            mc_polygonize P
              \<lparr>shape = shape sdf, entries = map (\<lambda>x. as_float32 P \<bar>x\<bar>) (entries sdf)\<rparr> level =
              Inr ([], fs) \<longrightarrow>
            compute P v f sz True level return_mesh new_fix =
              ([FIELD1, ABS, ISO], Inl (Raised ''RuntimeError''))) \<and>
         (\<forall>fs.
            mc_polygonize P
              \<lparr>shape = shape sdf, entries = map (\<lambda>x. as_float32 P \<bar>x\<bar>) (entries sdf)\<rparr> level =
              Inr ([], fs) \<longrightarrow>
            compute P v f sz True level return_mesh new_fix =
              ([FIELD1, ABS, ISO], Inl (Raised ''ValueError'')) \<or>
            compute P v f sz True level return_mesh new_fix =
              ([FIELD1, ABS, ISO], Inl (Raised ''RuntimeError''))) \<and>
         (\<forall>e. marching_cubes P (np_abs sdf) level = Inl e \<longrightarrow>
            compute P v f sz True level return_mesh new_fix = ([FIELD1, ABS, ISO], Inl e))"
proof (intro conjI allI impI)
  assume a: "\<forall>x \<in> set (entries sdf). as_float32 P \<bar>x\<bar> < compare_operand P level"
  have "marching_cubes P (np_abs sdf) level = Inl (Raised ''ValueError'')"
  proof (cases "entries sdf = []")
    case True
    then show ?thesis by (intro marching_cubes_out_of_range) (simp add: np_abs_def)
  next
    case False
    from level_above_amax[OF False, of "\<lambda>x. as_float32 P \<bar>x\<bar>" "compare_operand P level"] a
    have "amax (map (as_float32 P) (entries (np_abs sdf))) < compare_operand P level"
      by (simp add: np_abs_def comp_def)
    then show ?thesis by (intro marching_cubes_out_of_range) simp
  qed
  then show "compute P v f sz True level return_mesh new_fix =
      ([FIELD1, ABS, ISO], Inl (Raised ''ValueError''))"
    by (rule compute_iso_error[OF assms])
next
  assume a: "\<forall>x \<in> set (entries sdf). compare_operand P level < as_float32 P \<bar>x\<bar>"
  have "marching_cubes P (np_abs sdf) level = Inl (Raised ''ValueError'')"
  proof (cases "entries sdf = []")
    case True
    then show ?thesis by (intro marching_cubes_out_of_range) (simp add: np_abs_def)
  next
    case False
    from level_below_amin[OF False, of "compare_operand P level" "\<lambda>x. as_float32 P \<bar>x\<bar>"] a
    have "compare_operand P level < amin (map (as_float32 P) (entries (np_abs sdf)))"
      by (simp add: np_abs_def comp_def)
    then show ?thesis by (intro marching_cubes_out_of_range) simp
  qed
  then show "compute P v f sz True level return_mesh new_fix =
      ([FIELD1, ABS, ISO], Inl (Raised ''ValueError''))"
    by (rule compute_iso_error[OF assms])
next
  fix fs n0 n1 n2
  assume a: "shape sdf = (n0, n1, n2) \<and> 2 \<le> n0 \<and> 2 \<le> n1 \<and> 2 \<le> n2 \<and> entries sdf \<noteq> [] \<and>
            amin (map (\<lambda>x. as_float32 P \<bar>x\<bar>) (entries sdf)) \<le> compare_operand P level \<and>
            compare_operand P level \<le> amax (map (\<lambda>x. as_float32 P \<bar>x\<bar>) (entries sdf)) \<and>
            mc_polygonize P
              \<lparr>shape = shape sdf, entries = map (\<lambda>x. as_float32 P \<bar>x\<bar>) (entries sdf)\<rparr> level =
              Inr ([], fs)"
  have "marching_cubes P (np_abs sdf) level = Inl (Raised ''RuntimeError'')"
  proof (rule marching_cubes_no_vertex_in_range)
    show "shape (np_abs sdf) = (n0, n1, n2)" using a by (simp add: np_abs_def)
    show "2 \<le> n0" "2 \<le> n1" "2 \<le> n2" using a by simp_all
    show "entries (np_abs sdf) \<noteq> []" using a by (simp add: np_abs_def)
    show "amin (map (as_float32 P) (entries (np_abs sdf))) \<le> compare_operand P level"
      using a by (simp add: np_abs_def comp_def)
    show "compare_operand P level \<le> amax (map (as_float32 P) (entries (np_abs sdf)))"
      using a by (simp add: np_abs_def comp_def)
    show "mc_polygonize P (cast_float32 P (np_abs sdf)) level = Inr ([], fs)"
      using a unfolding abs_volume by blast
  qed
  then show "compute P v f sz True level return_mesh new_fix =
      ([FIELD1, ABS, ISO], Inl (Raised ''RuntimeError''))"
    by (rule compute_iso_error[OF assms])
next
  fix fs
  assume "mc_polygonize P
              \<lparr>shape = shape sdf, entries = map (\<lambda>x. as_float32 P \<bar>x\<bar>) (entries sdf)\<rparr> level =
              Inr ([], fs)"
  then have "mc_polygonize P (cast_float32 P (np_abs sdf)) level = Inr ([], fs)"
    by (simp add: abs_volume)
  from marching_cubes_no_vertex[OF this]
  show "compute P v f sz True level return_mesh new_fix =
              ([FIELD1, ABS, ISO], Inl (Raised ''ValueError'')) \<or>
        compute P v f sz True level return_mesh new_fix =
              ([FIELD1, ABS, ISO], Inl (Raised ''RuntimeError''))"
    using compute_iso_error[OF assms] by blast
next
  fix e
  assume "marching_cubes P (np_abs sdf) level = Inl e"
  then show "compute P v f sz True level return_mesh new_fix = ([FIELD1, ABS, ISO], Inl e)"
    by (rule compute_iso_error[OF assms])
qed

theorem level_not_meeting_field_raises_library_error_witness:
  "sample_core [(0, 0, 0)] [] 3 =
     Inr \<lparr>shape = (2, 2, 2), entries = [- 1, 1, 1, 1, 1, 1, 1, 1]\<rparr> \<and>
   compute (sample_prims []) [(0, 0, 0)] [] 3 True 5 False True =
     ([FIELD1, ABS, ISO], Inl (Raised ''ValueError'')) \<and>
   compute (sample_prims []) [(0, 0, 0)] [] 3 True (1 / 2) False True =
     ([FIELD1, ABS, ISO], Inl (Raised ''ValueError'')) \<and>
   compute ((sample_prims [])\<lparr>mc_polygonize := (\<lambda>volume level. Inr ([], []))\<rparr>)
      [(0, 0, 0)] [] 3 True 1 False True =
     ([FIELD1, ABS, ISO], Inl (Raised ''RuntimeError''))"
proof -
  let ?sdf = "\<lparr>shape = (2, 2, 2), entries = [- 1, 1, 1, 1, 1, 1, 1, 1::real]\<rparr>"
  let ?Q = "(sample_prims [])\<lparr>mc_polygonize := (\<lambda>volume level. Inr ([], []))\<rparr>"
  have c: "core_compute (sample_prims []) [(0, 0, 0)] [] 3 = Inr ?sdf"
    by (simp add: sample_prims_def sample_core_def)
  have cq: "core_compute ?Q [(0, 0, 0)] [] 3 = Inr ?sdf"
    by (simp add: sample_prims_def sample_core_def)
  have 0: "sample_core [(0, 0, 0)] [] 3 = Inr ?sdf" by (simp add: sample_core_def)
  have above: "\<forall>x \<in> set (entries ?sdf).
      as_float32 (sample_prims []) \<bar>x\<bar> < compare_operand (sample_prims []) 5"
    by (simp add: sample_prims_def)
  have below: "\<forall>x \<in> set (entries ?sdf).
      compare_operand (sample_prims []) (1 / 2) < as_float32 (sample_prims []) \<bar>x\<bar>"
    by (simp add: sample_prims_def)
  have 1: "compute (sample_prims []) [(0, 0, 0)] [] 3 True 5 False True =
     ([FIELD1, ABS, ISO], Inl (Raised ''ValueError''))"
    using level_not_meeting_field_raises_library_error[OF c, of 5 False True] above by blast
  have 2: "compute (sample_prims []) [(0, 0, 0)] [] 3 True (1 / 2) False True =
     ([FIELD1, ABS, ISO], Inl (Raised ''ValueError''))"
    using level_not_meeting_field_raises_library_error[OF c, of "1 / 2" False True] below
    by blast
  have inr: "shape ?sdf = (2, 2, 2) \<and> (2::nat) \<le> 2 \<and> (2::nat) \<le> 2 \<and> (2::nat) \<le> 2 \<and>
      entries ?sdf \<noteq> [] \<and>
      amin (map (\<lambda>x. as_float32 ?Q \<bar>x\<bar>) (entries ?sdf)) \<le> compare_operand ?Q 1 \<and>
      compare_operand ?Q 1 \<le> amax (map (\<lambda>x. as_float32 ?Q \<bar>x\<bar>) (entries ?sdf)) \<and>
      mc_polygonize ?Q
        \<lparr>shape = shape ?sdf, entries = map (\<lambda>x. as_float32 ?Q \<bar>x\<bar>) (entries ?sdf)\<rparr> 1 =
        Inr ([], [])"
    by (simp add: sample_prims_def amin_def amax_def)
  have 3: "compute ?Q [(0, 0, 0)] [] 3 True 1 False True =
     ([FIELD1, ABS, ISO], Inl (Raised ''RuntimeError''))"
    using level_not_meeting_field_raises_library_error[OF cq, of 1 False True] inr by blast
  from 0 1 2 3 show ?thesis by blast
qed

text \<open>The claim as written, an exception named \<^verbatim>\<open>DegenerateLevelSet\<close>, fails on these
  runs: a level above the field, and a polygoniser that finds no vertex.\<close>

theorem no_DegenerateLevelSet_counterexample:
  "snd (compute (sample_prims []) [(0, 0, 0)] [] 3 True 5 False True) = Inl (Raised ''ValueError'') \<and>
   snd (compute (sample_prims []) [(0, 0, 0)] [] 3 True 5 False True) \<noteq>
     Inl (Raised ''DegenerateLevelSet'') \<and>
   snd (compute ((sample_prims [])\<lparr>mc_polygonize := (\<lambda>volume level. Inr ([], []))\<rparr>)
          [(0, 0, 0)] [] 3 True 1 False True) = Inl (Raised ''RuntimeError'') \<and>
   snd (compute ((sample_prims [])\<lparr>mc_polygonize := (\<lambda>volume level. Inr ([], []))\<rparr>)
          [(0, 0, 0)] [] 3 True 1 False True) \<noteq> Inl (Raised ''DegenerateLevelSet'')"
  by (simp add: sample_run_level_5 sample_run_no_vertex)

section \<open>The single-pick policy\<close>

lemma bbox_loop_result:
  "bbox_loop cs acc = Inr sides \<Longrightarrow>
     length sides = length acc + length cs \<and>
     (\<forall>j < length acc. sides ! j = acc ! j) \<and>
     (\<forall>j < length cs. longest_side (cs ! j) = Inr (sides ! (length acc + j)))"
proof (induction cs arbitrary: acc)
  case Nil
  then show ?case by simp
next
  case (Cons c cs)
  from Cons.prems obtain s where s: "longest_side c = Inr s"
    and r: "bbox_loop cs (acc @ [s]) = Inr sides"
    by (auto split: sum.splits)
  from Cons.IH[OF r] have
    l: "length sides = length (acc @ [s]) + length cs"
    and a: "\<forall>j < length (acc @ [s]). sides ! j = (acc @ [s]) ! j"
    and b: "\<forall>j < length cs. longest_side (cs ! j) = Inr (sides ! (length (acc @ [s]) + j))"
    by blast+
  have 1: "length sides = length acc + length (c # cs)" using l by simp
  have 2: "\<forall>j < length acc. sides ! j = acc ! j"
  proof (intro allI impI)
    fix j assume "j < length acc"
    then show "sides ! j = acc ! j" using a by (auto simp: nth_append dest: spec[of _ j])
  qed
  have 3: "\<forall>j < length (c # cs). longest_side ((c # cs) ! j) = Inr (sides ! (length acc + j))"
  proof (intro allI impI)
    fix j assume j: "j < length (c # cs)"
    show "longest_side ((c # cs) ! j) = Inr (sides ! (length acc + j))"
    proof (cases j)
      case 0
      have "sides ! length acc = (acc @ [s]) ! length acc" using a by simp
      with 0 s show ?thesis by simp
    next
      case (Suc j')
      with j b show ?thesis by simp
    qed
  qed
  from 1 2 3 show ?case by blast
qed

lemma bbox_loop_total:
  "\<forall>c \<in> set cs. vertices c \<noteq> [] \<Longrightarrow> \<exists>sides. bbox_loop cs acc = Inr sides"
proof (induction cs arbitrary: acc)
  case Nil
  then show ?case by simp
next
  case (Cons c cs)
  then have "vertices c \<noteq> []" by simp
  then obtain s where "longest_side c = Inr s"
    by (cases "vmin (vertices c)"; cases "vmax (vertices c)") (auto simp: longest_side_def)
  with Cons show ?case by simp
qed

text \<open>The scan keeps the first position of the largest value seen so far.\<close>

lemma argmax_scan_result:
  assumes "best < length pre" and "pre ! best = best_val"
    and "\<forall>j < length pre. pre ! j \<le> best_val" and "\<forall>j < best. pre ! j < best_val"
  shows "argmax_scan xs (length pre) best best_val < length (pre @ xs) \<and>
         (\<forall>j < length (pre @ xs). (pre @ xs) ! j \<le> (pre @ xs) ! argmax_scan xs (length pre) best best_val) \<and>
         (\<forall>j < argmax_scan xs (length pre) best best_val.
            (pre @ xs) ! j < (pre @ xs) ! argmax_scan xs (length pre) best best_val)"
  using assms
proof (induction xs arbitrary: pre best best_val)
  case Nil
  then show ?case by simp
next
  case (Cons x xs)
  show ?case
  proof (cases "x > best_val")
    case True
    have "argmax_scan xs (length (pre @ [x])) (length pre) x < length ((pre @ [x]) @ xs) \<and>
         (\<forall>j < length ((pre @ [x]) @ xs). ((pre @ [x]) @ xs) ! j \<le>
              ((pre @ [x]) @ xs) ! argmax_scan xs (length (pre @ [x])) (length pre) x) \<and>
         (\<forall>j < argmax_scan xs (length (pre @ [x])) (length pre) x.
            ((pre @ [x]) @ xs) ! j < ((pre @ [x]) @ xs) ! argmax_scan xs (length (pre @ [x])) (length pre) x)"
    proof (rule Cons.IH)
      show "length pre < length (pre @ [x])" by simp
      show "(pre @ [x]) ! length pre = x" by simp
      show "\<forall>j < length (pre @ [x]). (pre @ [x]) ! j \<le> x"
        using Cons.prems(3) True by (auto simp: nth_append less_Suc_eq intro: order_trans less_imp_le)
      show "\<forall>j < length pre. (pre @ [x]) ! j < x"
        using Cons.prems(3) True by (auto simp: nth_append intro: le_less_trans)
    qed
    with True show ?thesis by simp
  next
    case False
    have "argmax_scan xs (length (pre @ [x])) best best_val < length ((pre @ [x]) @ xs) \<and>
         (\<forall>j < length ((pre @ [x]) @ xs). ((pre @ [x]) @ xs) ! j \<le>
              ((pre @ [x]) @ xs) ! argmax_scan xs (length (pre @ [x])) best best_val) \<and>
         (\<forall>j < argmax_scan xs (length (pre @ [x])) best best_val.
            ((pre @ [x]) @ xs) ! j < ((pre @ [x]) @ xs) ! argmax_scan xs (length (pre @ [x])) best best_val)"
    proof (rule Cons.IH)
      show "best < length (pre @ [x])" using Cons.prems(1) by simp
      show "(pre @ [x]) ! best = best_val" using Cons.prems(1,2) by (simp add: nth_append)
      show "\<forall>j < length (pre @ [x]). (pre @ [x]) ! j \<le> best_val"
        using Cons.prems(3) False by (auto simp: nth_append less_Suc_eq)
      show "\<forall>j < best. (pre @ [x]) ! j < best_val"
        using Cons.prems(1,4) by (auto simp: nth_append)
    qed
    with False show ?thesis by simp
  qed
qed

lemma argmax_result:
  assumes "xs \<noteq> []"
  shows "\<exists>k. argmax xs = Inr k \<and> k < length xs \<and> (\<forall>j < length xs. xs ! j \<le> xs ! k) \<and>
             (\<forall>j < k. xs ! j < xs ! k)"
proof -
  from assms obtain x rest where xs: "xs = x # rest" by (cases xs) auto
  have "argmax_scan rest (length [x]) 0 x < length ([x] @ rest) \<and>
         (\<forall>j < length ([x] @ rest). ([x] @ rest) ! j \<le> ([x] @ rest) ! argmax_scan rest (length [x]) 0 x) \<and>
         (\<forall>j < argmax_scan rest (length [x]) 0 x.
            ([x] @ rest) ! j < ([x] @ rest) ! argmax_scan rest (length [x]) 0 x)"
    by (rule argmax_scan_result) simp_all
  then show ?thesis by (simp add: xs argmax_def)
qed

text \<open>
  C2 (as the function behaves). With \<^verbatim>\<open>new_fix\<close> false and at least one component, each
  with at least one vertex, the selection returns exactly one of the components: the first
  one in order whose box, taken around all its vertices, has the longest side, where the
  longest side is the largest of the three extents \<open>max - min\<close>.
\<close>

theorem single_pick_longest_side:
  assumes "cs \<noteq> []" and "\<forall>c \<in> set cs. vertices c \<noteq> []"
  shows "\<exists>k sides. bbox_loop cs [] = Inr sides \<and> length sides = length cs \<and>
           (\<forall>j < length cs. longest_side (cs ! j) = Inr (sides ! j)) \<and>
           max_component cs = Inr k \<and> k < length cs \<and>
           (\<forall>j < length cs. sides ! j \<le> sides ! k) \<and>
           (\<forall>j < k. sides ! j < sides ! k) \<and>
           select_mesh P False cs = ([SELECTED, PICKED], Inr (cs ! k))"
proof -
  from bbox_loop_total[OF assms(2)] obtain sides where s: "bbox_loop cs [] = Inr sides" by blast
  from bbox_loop_result[OF s] have l: "length sides = length cs"
    and ls: "\<forall>j < length cs. longest_side (cs ! j) = Inr (sides ! j)"
    by simp_all
  from l assms(1) have "sides \<noteq> []" by auto
  from argmax_result[OF this] obtain k where k: "argmax sides = Inr k" "k < length sides"
    "\<forall>j < length sides. sides ! j \<le> sides ! k" "\<forall>j < k. sides ! j < sides ! k"
    by blast
  have mc: "max_component cs = Inr k" by (simp add: max_component_def s k(1))
  have sel: "select_mesh P False cs = ([SELECTED, PICKED], Inr (cs ! k))"
    using k(2) l by (simp add: select_mesh_def mc then_run_def enter_def item_def)
  show ?thesis
  proof (intro exI conjI)
    show "bbox_loop cs [] = Inr sides" by (rule s)
    show "length sides = length cs" by (rule l)
    show "\<forall>j < length cs. longest_side (cs ! j) = Inr (sides ! j)" by (rule ls)
    show "max_component cs = Inr k" by (rule mc)
    show "k < length cs" using k(2) l by simp
    show "\<forall>j < length cs. sides ! j \<le> sides ! k" using k(3) l by simp
    show "\<forall>j < k. sides ! j < sides ! k" by (rule k(4))
    show "select_mesh P False cs = ([SELECTED, PICKED], Inr (cs ! k))" by (rule sel)
  qed
qed

lemma sample_single_pick:
  "select_mesh (sample_prims []) False [large_tri, long_tri, long_tri] =
     ([SELECTED, PICKED], Inr long_tri)"
  by code_simp

theorem single_pick_longest_side_witness:
  "vertices large_tri = [(0, 0, 0), (4, 0, 0), (0, 4, 4)] \<and>
   vertices long_tri = [(0, 0, 0), (5, 0, 0), (1, 0, 0)] \<and>
   bbox_loop [large_tri, long_tri, long_tri] [] = Inr [4, 5, 5] \<and>
   max_component [large_tri, long_tri, long_tri] = Inr 1 \<and>
   select_mesh (sample_prims []) False [large_tri, long_tri, long_tri] =
     ([SELECTED, PICKED], Inr long_tri)"
proof -
  let ?cs = "[large_tri, long_tri, long_tri]"
  have h1: "?cs \<noteq> []" by simp
  have h2: "\<forall>c \<in> set ?cs. vertices c \<noteq> []" by (simp add: large_tri_def long_tri_def)
  from single_pick_longest_side[OF h1 h2, of "sample_prims []"] obtain k sides where
    r: "bbox_loop ?cs [] = Inr sides" "max_component ?cs = Inr k"
       "select_mesh (sample_prims []) False ?cs = ([SELECTED, PICKED], Inr (?cs ! k))"
    by blast
  have b: "bbox_loop ?cs [] = Inr [4, 5, 5]" by code_simp
  have m: "max_component ?cs = Inr 1" by code_simp
  from r(2) m have "k = 1" by simp
  with r(3) have "select_mesh (sample_prims []) False ?cs = ([SELECTED, PICKED], Inr long_tri)"
    by simp
  with b m show ?thesis by (simp add: large_tri_def long_tri_def)
qed

text \<open>The claim as written, the largest diagonal, fails: the long thin component is picked
  although the diagonal of the other one is longer.\<close>

theorem largest_diagonal_counterexample:
  "select_mesh (sample_prims []) False [large_tri, long_tri] = ([SELECTED, PICKED], Inr long_tri) \<and>
   diagonal_sq long_tri = 25 \<and> diagonal_sq large_tri = 48 \<and>
   diagonal_sq long_tri < diagonal_sq large_tri"
proof -
  have 1: "select_mesh (sample_prims []) False [large_tri, long_tri] =
      ([SELECTED, PICKED], Inr long_tri)"
    by code_simp
  have 2: "diagonal_sq long_tri = 25" by code_simp
  have 3: "diagonal_sq large_tri = 48" by code_simp
  from 1 2 3 show ?thesis by simp
qed

section \<open>Empty selections\<close>

text \<open>Among finitely many components, the one whose box starts lowest on the first axis
  lies strictly inside no other box.\<close>

lemma box_insideD:
  assumes "box_inside c c'"
  shows "\<exists>a b. bounds c = Inr (Some a) \<and> bounds c' = Inr (Some b) \<and> strictly_inside a b"
proof (cases "bounds c")
  case (Inl e)
  with assms show ?thesis by (simp add: box_inside_def)
next
  case (Inr oa)
  show ?thesis
  proof (cases oa)
    case None
    with assms Inr show ?thesis by (simp add: box_inside_def)
  next
    case (Some a)
    show ?thesis
    proof (cases "bounds c'")
      case (Inl e)
      with assms Inr Some show ?thesis by (simp add: box_inside_def)
    next
      case ob: (Inr ob)
      show ?thesis
      proof (cases ob)
        case None
        with assms Inr Some ob show ?thesis by (simp add: box_inside_def)
      next
        case b: (Some b)
        with assms Inr Some ob show ?thesis by (simp add: box_inside_def)
      qed
    qed
  qed
qed

lemma some_box_not_inside:
  assumes "cs \<noteq> []"
  shows "\<exists>i < length cs. \<forall>j < length cs. \<not> box_inside (cs ! i) (cs ! j)"
proof -
  define key where "key = (\<lambda>c. case bounds c of
      Inr (Some ((x, y, z), hi)) \<Rightarrow> x | _ \<Rightarrow> (0::real))"
  have fin: "finite (key ` set cs)" by simp
  have ne: "key ` set cs \<noteq> {}" using assms by simp
  from Min_in[OF fin ne] obtain c0 where c0: "c0 \<in> set cs" and m: "key c0 = Min (key ` set cs)"
    by auto
  from c0 obtain i where i: "i < length cs" and ci: "cs ! i = c0"
    by (auto simp: in_set_conv_nth)
  have least: "key c0 \<le> key (cs ! j)" if "j < length cs" for j
    using that m fin by simp
  have "\<not> box_inside (cs ! i) (cs ! j)" if j: "j < length cs" for j
  proof
    assume b: "box_inside (cs ! i) (cs ! j)"
    from box_insideD[OF b] obtain a a' where a: "bounds (cs ! i) = Inr (Some a)"
      and a': "bounds (cs ! j) = Inr (Some a')" and s: "strictly_inside a a'"
      by blast
    obtain x y z hi where ax: "a = ((x, y, z), hi)" by (metis prod.exhaust)
    obtain x' y' z' hi' where ax': "a' = ((x', y', z'), hi')" by (metis prod.exhaust)
    from s ax ax' have "x' < x" by (simp add: strictly_inside_def all_gt_def)
    moreover have "key (cs ! i) = x" by (simp add: key_def a ax)
    moreover have "key (cs ! j) = x'" by (simp add: key_def a' ax')
    ultimately show False using least[OF j] ci by simp
  qed
  with i show ?thesis by blast
qed

lemma kept_components_nonempty:
  assumes "cs \<noteq> []" and "kept_components cs = Inr kept"
  shows "kept \<noteq> []"
proof -
  from assms(2) obtain flags where fl: "keep_flags_of cs = Inr flags"
    and k: "kept = map fst (filter snd (zip cs flags))"
    by (auto simp: kept_components_def split: sum.splits)
  note r = keep_flags_of_result[OF fl]
  from some_box_not_inside[OF assms(1)] obtain i where i: "i < length cs"
    and n: "\<forall>j < length cs. \<not> box_inside (cs ! i) (cs ! j)"
    by blast
  from r(2)[OF i] n have "flags ! i" by simp
  with i have "filter (\<lambda>i. flags ! i) [0..<length cs] \<noteq> []"
    by (auto simp: filter_empty_conv)
  then show ?thesis by (simp add: k filter_zip_flags[OF r(1)])
qed

lemma sample_run_no_components:
  "compute (sample_prims []) [(0, 0, 0)] [] 3 True 1 False True =
     ([FIELD1, ABS, ISO, SPLIT, SELECTED, MERGED, RENORMALIZED, FIELD2],
      Inr (Sdf \<lparr>shape = (2, 2, 2), entries = [- 1, 0, 1, 1, 1, 1, 1, 1]\<rparr>))"
  by code_simp

lemma sample_kept:
  "kept_components [large_tri, small_tri] = Inr [large_tri]"
  by code_simp

text \<open>
  C5 (as the function behaves). The function does not test whether any component is left.
  Under the containment policy a non-empty list of components always leaves at least one
  component, so the rule cannot discard all of them. An empty list of components gives an
  empty list of kept components, which is handed to \<^verbatim>\<open>concatenate\<close> as it is: what
  \<^verbatim>\<open>concatenate\<close> returns or raises for it is what the selection yields. Under the other
  policy an empty list stops in \<^verbatim>\<open>np.argmax\<close> with its \<^verbatim>\<open>ValueError\<close>.
\<close>

theorem empty_selection_not_checked:
  "(cs \<noteq> [] \<longrightarrow> (\<forall>kept. kept_components cs = Inr kept \<longrightarrow> kept \<noteq> [])) \<and>
   kept_components [] = Inr [] \<and>
   select_mesh P True [] = ([SELECTED, MERGED], concatenate P []) \<and>
   select_mesh P False [] = ([SELECTED], Inl (Raised ''ValueError''))"
proof (intro conjI impI allI)
  fix kept
  assume "cs \<noteq> []" and "kept_components cs = Inr kept"
  then show "kept \<noteq> []" by (rule kept_components_nonempty)
next
  show k: "kept_components [] = Inr []"
    by (simp add: kept_components_def keep_flags_of_def)
  show "select_mesh P True [] = ([SELECTED, MERGED], concatenate P [])"
    by (simp add: select_mesh_def k then_run_def enter_def)
  show "select_mesh P False [] = ([SELECTED], Inl (Raised ''ValueError''))"
    by (simp add: select_mesh_def max_component_def argmax_def then_run_def enter_def)
qed

theorem empty_selection_not_checked_witness:
  "[large_tri, small_tri] \<noteq> [] \<and>
   kept_components [large_tri, small_tri] = Inr [large_tri] \<and>
   [large_tri] \<noteq> ([] :: mesh list) \<and>
   select_mesh (sample_prims []) True [] =
     ([SELECTED, MERGED], Inr \<lparr>vertices = [], faces = []\<rparr>)"
proof -
  have h: "[large_tri, small_tri] \<noteq> []" by simp
  from empty_selection_not_checked[of "[large_tri, small_tri]" "sample_prims []"] h sample_kept
  have 1: "[large_tri] \<noteq> ([] :: mesh list)" by blast
  from empty_selection_not_checked[of "[large_tri, small_tri]" "sample_prims []"]
  have "select_mesh (sample_prims []) True [] =
      ([SELECTED, MERGED], concatenate (sample_prims []) [])" by blast
  then have 2: "select_mesh (sample_prims []) True [] =
      ([SELECTED, MERGED], Inr \<lparr>vertices = [], faces = []\<rparr>)"
    by (simp add: sample_prims_def sample_concatenate_def)
  from h sample_kept 1 2 show ?thesis by simp
qed

text \<open>The claim as written fails: with a splitter that returns no component and a merge
  that returns an empty mesh for an empty sequence, the run goes through every stage and
  returns a field computed from the empty mesh, without any error.\<close>

theorem silent_field_from_empty_mesh_counterexample:
  "mesh_split (sample_prims []) \<lparr>vertices = [(0, 0, 0), (1, 0, 0), (0, 1, 0)], faces = [(0, 1, 2)]\<rparr> =
     Inr [] \<and>
   compute (sample_prims []) [(0, 0, 0)] [] 3 True 1 False True =
     ([FIELD1, ABS, ISO, SPLIT, SELECTED, MERGED, RENORMALIZED, FIELD2],
      Inr (Sdf \<lparr>shape = (2, 2, 2), entries = [- 1, 0, 1, 1, 1, 1, 1, 1]\<rparr>))"
  by (simp add: sample_run_no_components) (simp add: sample_prims_def)

section \<open>Calls of the function\<close>

text \<open>
  C8 (as the function is declared). The parameters are \<^verbatim>\<open>vertices\<close>, \<^verbatim>\<open>faces\<close>,
  \<^verbatim>\<open>size=128\<close>, \<^verbatim>\<open>fix=False\<close>, \<^verbatim>\<open>level=0.015\<close>, \<^verbatim>\<open>return_mesh=False\<close> and
  \<^verbatim>\<open>new_fix=True\<close>. A call with the two arrays alone runs the body with these defaults;
  the selection policy is chosen by the boolean \<^verbatim>\<open>new_fix\<close>; a keyword
  \<^verbatim>\<open>shell_policy\<close> is rejected with \<^verbatim>\<open>TypeError\<close>.
\<close>

theorem compute_signature:
  "map fst compute_params =
     [''vertices'', ''faces'', ''size'', ''fix'', ''level'', ''return_mesh'', ''new_fix''] \<and>
   bind_args compute_params [PyVertices v, PyFaces f] [] =
     Inr [PyVertices v, PyFaces f, PyInt 128, PyBool False, PyFloat (15 / 1000), PyBool False,
          PyBool True] \<and>
   call_compute P [PyVertices v, PyFaces f] [] =
     Inr (Some (compute P v f 128 False (15 / 1000) False True)) \<and>
   call_compute P [PyVertices v, PyFaces f] [(''fix'', PyBool True), (''new_fix'', PyBool False)] =
     Inr (Some (compute P v f 128 True (15 / 1000) False False)) \<and>
   call_compute P [PyVertices v, PyFaces f] [(''shell_policy'', x)] = Inl (Raised ''TypeError'')"
  by (simp add: compute_params_def bind_args_def call_compute_def run_body_def)

text \<open>The claim as written, a parameter \<^verbatim>\<open>shell_policy\<close>, fails: no parameter has that
  name, and a call that passes it raises.\<close>

theorem shell_policy_counterexample:
  "''shell_policy'' \<notin> set (map fst compute_params) \<and>
   call_compute (sample_prims []) [PyVertices [], PyFaces []] [(''shell_policy'', PyBool True)] =
     Inl (Raised ''TypeError'')"
  by (simp add: compute_params_def bind_args_def call_compute_def)

end
